theory Spec2Isabelle
  imports Main
begin

section \<open>JavaScript values\<close>

text \<open>
  The conformance engine is dynamically typed: a declaration, a test spec, a fixture, a
  resolver result and a thrown error are all arbitrary JavaScript values, and the validators
  inspect them with \<^verbatim>\<open>typeof\<close>, truthiness, property reads and the \<^verbatim>\<open>in\<close>
  operator.  The embedding therefore works on one datatype of values.

  \<^item> Numbers are the integers plus \<open>NaN\<close>; fractions, infinities and negative zero are
    left out (the engine only tests numbers for truthiness and \<^verbatim>\<open>typeof\<close>, and prints them).
  \<^item> An object is the list of its own properties in enumeration order; a function is the
    list of its own properties (its behaviour when called is modelled where it is called).
  \<^item> Objects carry no identity: two object values are never \<^verbatim>\<open>===\<close>, as for values that
    were allocated separately (the test spec is parsed from a file, the declaration is
    loaded from a module, results are produced by the resolver).
  \<^item> Inherited properties are those of the standard prototypes of plain objects, arrays,
    functions, strings and numbers.
  \<^item> A string is the list of its characters.
\<close>

datatype jsval =
    JUndefined
  | JNull
  | JBool bool
  | JNum int
  | JNaN
  | JStr string
  | JArr "jsval list"
  | JObj "(string \<times> jsval) list"
  | JFun "(string \<times> jsval) list"

text \<open>
  What a computation of the engine can end with instead of a value: a TypeError raised by
  the language (a property read on \<^verbatim>\<open>null\<close>, a call of a non-function, an iteration
  over a non-iterable), a SyntaxError raised by \<^verbatim>\<open>JSON.parse\<close>, and the configuration
  error raised by the harness.  \<open>Unsupported\<close> marks the few steps that are not followed
  further: a call of a function value that was supplied as data, and the conversion of
  non-decimal text to a number.
\<close>

datatype js_error =
    TypeError
  | SyntaxError
  | ConfigError
  | Unsupported

fun truthy :: "jsval \<Rightarrow> bool" where
  "truthy JUndefined = False"
| "truthy JNull = False"
| "truthy (JBool b) = b"
| "truthy (JNum n) = (n \<noteq> 0)"
| "truthy JNaN = False"
| "truthy (JStr s) = (s \<noteq> [])"
| "truthy (JArr xs) = True"
| "truthy (JObj fs) = True"
| "truthy (JFun fs) = True"

fun typeof :: "jsval \<Rightarrow> string" where
  "typeof JUndefined = ''undefined''"
| "typeof JNull = ''object''"
| "typeof (JBool b) = ''boolean''"
| "typeof (JNum n) = ''number''"
| "typeof JNaN = ''number''"
| "typeof (JStr s) = ''string''"
| "typeof (JArr xs) = ''object''"
| "typeof (JObj fs) = ''object''"
| "typeof (JFun fs) = ''function''"

fun isArray :: "jsval \<Rightarrow> bool" where
  "isArray (JArr xs) = True"
| "isArray v = False"

fun nullish :: "jsval \<Rightarrow> bool" where
  "nullish JUndefined = True"
| "nullish JNull = True"
| "nullish v = False"

text \<open>\<^verbatim>\<open>a || b\<close> on values.\<close>

definition js_or :: "jsval \<Rightarrow> jsval \<Rightarrow> jsval" where
  "js_or a b = (if truthy a then a else b)"

text \<open>Sequencing of computations that may throw.\<close>

definition and_then :: "'e + 'a \<Rightarrow> ('a \<Rightarrow> 'e + 'b) \<Rightarrow> 'e + 'b" where
  "and_then m f = (case m of Inl e \<Rightarrow> Inl e | Inr v \<Rightarrow> f v)"

subsection \<open>Conversion to strings\<close>

fun digit_char :: "nat \<Rightarrow> char" where
  "digit_char n = char_of (48 + n mod 10)"

fun show_nat :: "nat \<Rightarrow> string" where
  "show_nat n = (if n < 10 then [digit_char n] else show_nat (n div 10) @ [digit_char n])"

definition show_int :: "int \<Rightarrow> string" where
  "show_int i = (if i < 0 then CHR ''-'' # show_nat (nat (- i)) else show_nat (nat i))"

fun join :: "string \<Rightarrow> string list \<Rightarrow> string" where
  "join sep [] = []"
| "join sep [s] = s"
| "join sep (s # t # ss) = s @ sep @ join sep (t # ss)"

text \<open>
  \<^verbatim>\<open>String(v)\<close>, as applied by template literals, by property keys and by
  \<^verbatim>\<open>RegExp.prototype.test\<close>.  The text of a function is its source; the model prints a
  fixed text for it.
\<close>

fun to_string :: "jsval \<Rightarrow> string" where
  "to_string JUndefined = ''undefined''"
| "to_string JNull = ''null''"
| "to_string (JBool b) = (if b then ''true'' else ''false'')"
| "to_string (JNum n) = show_int n"
| "to_string JNaN = ''NaN''"
| "to_string (JStr s) = s"
| "to_string (JArr xs) = join '','' (map (\<lambda>x. if nullish x then [] else to_string x) xs)"
| "to_string (JObj fs) = ''[object Object]''"
| "to_string (JFun fs) = ''function () { [native code] }''"

subsection \<open>Equality\<close>

text \<open>\<^verbatim>\<open>a === b\<close>: primitives by value, \<open>NaN\<close> unequal to itself, objects never.\<close>

fun strict_eq :: "jsval \<Rightarrow> jsval \<Rightarrow> bool" where
  "strict_eq JUndefined JUndefined = True"
| "strict_eq JNull JNull = True"
| "strict_eq (JBool a) (JBool b) = (a = b)"
| "strict_eq (JNum a) (JNum b) = (a = b)"
| "strict_eq (JStr a) (JStr b) = (a = b)"
| "strict_eq a b = False"

text \<open>SameValueZero, the comparison of \<^verbatim>\<open>Array.prototype.includes\<close>.\<close>

fun same_value_zero :: "jsval \<Rightarrow> jsval \<Rightarrow> bool" where
  "same_value_zero JNaN JNaN = True"
| "same_value_zero a b = strict_eq a b"

definition array_includes :: "jsval list \<Rightarrow> jsval \<Rightarrow> bool" where
  "array_includes xs v = list_ex (\<lambda>x. same_value_zero x v) xs"

subsection \<open>Properties\<close>

text \<open>
  Names that every plain object inherits from \<^verbatim>\<open>Object.prototype\<close>, and the further
  names inherited by arrays, functions and strings (ECMAScript 2023).
\<close>

definition object_prototype_keys :: "string list" where
  "object_prototype_keys =
     [''constructor'', ''hasOwnProperty'', ''isPrototypeOf'', ''propertyIsEnumerable'',
      ''toLocaleString'', ''toString'', ''valueOf'', ''__proto__'',
      ''__defineGetter__'', ''__defineSetter__'', ''__lookupGetter__'', ''__lookupSetter__'']"

definition array_prototype_keys :: "string list" where
  "array_prototype_keys =
     [''at'', ''concat'', ''copyWithin'', ''entries'', ''every'', ''fill'', ''filter'', ''find'',
      ''findIndex'', ''findLast'', ''findLastIndex'', ''flat'', ''flatMap'', ''forEach'',
      ''includes'', ''indexOf'', ''join'', ''keys'', ''lastIndexOf'', ''map'', ''pop'', ''push'',
      ''reduce'', ''reduceRight'', ''reverse'', ''shift'', ''slice'', ''some'', ''sort'',
      ''splice'', ''toReversed'', ''toSorted'', ''toSpliced'', ''unshift'', ''values'', ''with'']"

definition function_prototype_keys :: "string list" where
  "function_prototype_keys = [''apply'', ''bind'', ''call'', ''arguments'', ''caller'']"

definition string_prototype_keys :: "string list" where
  "string_prototype_keys =
     [''anchor'', ''at'', ''big'', ''blink'', ''bold'', ''charAt'', ''charCodeAt'', ''codePointAt'',
      ''concat'', ''endsWith'', ''fixed'', ''fontcolor'', ''fontsize'', ''includes'', ''indexOf'',
      ''isWellFormed'', ''italics'', ''lastIndexOf'', ''link'', ''localeCompare'', ''match'',
      ''matchAll'', ''normalize'', ''padEnd'', ''padStart'', ''repeat'', ''replace'',
      ''replaceAll'', ''search'', ''slice'', ''small'', ''split'', ''startsWith'', ''strike'',
      ''sub'', ''substr'', ''substring'', ''sup'', ''toLocaleLowerCase'', ''toLocaleUpperCase'',
      ''toLowerCase'', ''toUpperCase'', ''toWellFormed'', ''trim'', ''trimEnd'', ''trimLeft'',
      ''trimRight'', ''trimStart'']"

definition number_prototype_keys :: "string list" where
  "number_prototype_keys = [''toExponential'', ''toFixed'', ''toPrecision'']"

text \<open>A built-in function reached through a prototype.\<close>

definition builtin :: "string \<Rightarrow> jsval" where
  "builtin k = JFun [(''name'', JStr k)]"

definition inherited_from_object :: "string \<Rightarrow> jsval" where
  "inherited_from_object k =
     (if k = ''__proto__'' then JObj []
      else if k \<in> set object_prototype_keys then builtin k
      else JUndefined)"

definition inherited :: "string list \<Rightarrow> string \<Rightarrow> jsval" where
  "inherited proto k = (if k \<in> set proto then builtin k else inherited_from_object k)"

text \<open>The index denoted by a property key of an array of length \<open>n\<close>, if any.\<close>

definition array_index :: "nat \<Rightarrow> string \<Rightarrow> nat option" where
  "array_index n k = find (\<lambda>i. show_nat i = k) [0..<n]"

text \<open>
  \<^verbatim>\<open>v[k]\<close> for a string key.  Reading a property of \<^verbatim>\<open>undefined\<close> or
  \<^verbatim>\<open>null\<close> throws a TypeError; every other value answers, with \<^verbatim>\<open>undefined\<close> for a name
  it neither owns nor inherits.
\<close>

fun js_get :: "jsval \<Rightarrow> string \<Rightarrow> js_error + jsval" where
  "js_get JUndefined k = Inl TypeError"
| "js_get JNull k = Inl TypeError"
| "js_get (JBool b) k = Inr (inherited [] k)"
| "js_get (JNum n) k = Inr (inherited number_prototype_keys k)"
| "js_get JNaN k = Inr (inherited number_prototype_keys k)"
| "js_get (JStr s) k =
     Inr (if k = ''length'' then JNum (int (length s))
          else case array_index (length s) k of
                 Some i \<Rightarrow> JStr [s ! i]
               | None \<Rightarrow> inherited string_prototype_keys k)"
| "js_get (JArr xs) k =
     Inr (if k = ''length'' then JNum (int (length xs))
          else case array_index (length xs) k of
                 Some i \<Rightarrow> xs ! i
               | None \<Rightarrow> inherited array_prototype_keys k)"
| "js_get (JObj fs) k =
     Inr (case map_of fs k of Some v \<Rightarrow> v | None \<Rightarrow> inherited_from_object k)"
| "js_get (JFun fs) k =
     Inr (case map_of fs k of Some v \<Rightarrow> v | None \<Rightarrow> inherited function_prototype_keys k)"

text \<open>\<^verbatim>\<open>v?.k\<close>: \<^verbatim>\<open>undefined\<close> instead of a TypeError.\<close>

definition js_get_opt :: "jsval \<Rightarrow> string \<Rightarrow> jsval" where
  "js_get_opt v k = (case js_get v k of Inl e \<Rightarrow> JUndefined | Inr x \<Rightarrow> x)"

text \<open>
  \<^verbatim>\<open>k in v\<close> for a string key.  The operator follows the prototype chain, and throws a
  TypeError when its right operand is not an object.
\<close>

fun js_in :: "string \<Rightarrow> jsval \<Rightarrow> js_error + bool" where
  "js_in k (JObj fs) = Inr (k \<in> fst ` set fs \<or> k \<in> set object_prototype_keys)"
| "js_in k (JArr xs) =
     Inr (k = ''length'' \<or> array_index (length xs) k \<noteq> None
          \<or> k \<in> set array_prototype_keys \<or> k \<in> set object_prototype_keys)"
| "js_in k (JFun fs) =
     Inr (k \<in> fst ` set fs \<or> k \<in> set function_prototype_keys \<or> k \<in> set object_prototype_keys)"
| "js_in k v = Inl TypeError"

subsection \<open>Array methods on arbitrary receivers\<close>

text \<open>
  \<^verbatim>\<open>v.m(...)\<close> for an array method \<open>m\<close>: the elements when \<open>v\<close> is an array; a
  TypeError when \<open>v\<close> is \<^verbatim>\<open>null\<close> or \<^verbatim>\<open>undefined\<close>, or when \<open>v.m\<close> is not a
  function.
\<close>

definition as_array_for :: "string \<Rightarrow> jsval \<Rightarrow> js_error + jsval list" where
  "as_array_for m v =
     (case v of
        JArr xs \<Rightarrow> Inr xs
      | _ \<Rightarrow> and_then (js_get v m) (\<lambda>f. case f of JFun fs \<Rightarrow> Inl Unsupported | _ \<Rightarrow> Inl TypeError))"

fun every :: "('a \<Rightarrow> js_error + bool) \<Rightarrow> 'a list \<Rightarrow> js_error + bool" where
  "every p [] = Inr True"
| "every p (x # xs) = and_then (p x) (\<lambda>b. if b then every p xs else Inr False)"

fun map_each :: "('a \<Rightarrow> js_error + 'b) \<Rightarrow> 'a list \<Rightarrow> js_error + 'b list" where
  "map_each f [] = Inr []"
| "map_each f (x # xs) = and_then (f x) (\<lambda>y. and_then (map_each f xs) (\<lambda>ys. Inr (y # ys)))"

fun find_first :: "('a \<Rightarrow> js_error + bool) \<Rightarrow> 'a list \<Rightarrow> js_error + 'a option" where
  "find_first p [] = Inr None"
| "find_first p (x # xs) = and_then (p x) (\<lambda>b. if b then Inr (Some x) else find_first p xs)"

text \<open>Short-circuit conjunction of tests that may throw.\<close>

definition and_also :: "js_error + bool \<Rightarrow> js_error + bool \<Rightarrow> js_error + bool" where
  "and_also a b = and_then a (\<lambda>x. if x then b else Inr False)"

definition typeof_is :: "jsval \<Rightarrow> string \<Rightarrow> string \<Rightarrow> js_error + bool" where
  "typeof_is v k t = and_then (js_get v k) (\<lambda>x. Inr (typeof x = t))"

subsection \<open>Relational comparison\<close>

definition is_digit :: "char \<Rightarrow> bool" where
  "is_digit c = (48 \<le> (of_char c :: nat) \<and> (of_char c :: nat) \<le> 57)"

definition parse_nat :: "string \<Rightarrow> nat" where
  "parse_nat s = foldl (\<lambda>n c. 10 * n + (of_char c - 48)) 0 s"

text \<open>\<^verbatim>\<open>Number(v)\<close> for a primitive; \<open>None\<close> is \<open>NaN\<close>.\<close>

fun to_number :: "jsval \<Rightarrow> js_error + int option" where
  "to_number JUndefined = Inr None"
| "to_number JNull = Inr (Some 0)"
| "to_number (JBool b) = Inr (Some (if b then 1 else 0))"
| "to_number (JNum n) = Inr (Some n)"
| "to_number JNaN = Inr None"
| "to_number (JStr s) =
     (if list_all is_digit s then Inr (Some (int (parse_nat s))) else Inl Unsupported)"
| "to_number v = Inl Unsupported"

fun string_le :: "string \<Rightarrow> string \<Rightarrow> bool" where
  "string_le [] t = True"
| "string_le (c # s) [] = False"
| "string_le (c # s) (d # t) =
     ((of_char c :: nat) < of_char d \<or> (c = d \<and> string_le s t))"

fun to_primitive :: "jsval \<Rightarrow> js_error + jsval" where
  "to_primitive (JArr xs) = Inr (JStr (to_string (JArr xs)))"
| "to_primitive (JObj fs) = Inr (JStr (to_string (JObj fs)))"
| "to_primitive (JFun fs) = Inl Unsupported"
| "to_primitive v = Inr v"

text \<open>\<^verbatim>\<open>a < b\<close> and \<^verbatim>\<open>a <= b\<close>: a comparison with \<open>NaN\<close> is false.\<close>

definition js_compare ::
  "(int \<Rightarrow> int \<Rightarrow> bool) \<Rightarrow> (string \<Rightarrow> string \<Rightarrow> bool) \<Rightarrow> jsval \<Rightarrow> jsval \<Rightarrow> js_error + bool" where
  "js_compare on_numbers on_strings a b =
     and_then (to_primitive a) (\<lambda>pa.
     and_then (to_primitive b) (\<lambda>pb.
       case (pa, pb) of
         (JStr x, JStr y) \<Rightarrow> Inr (on_strings x y)
       | _ \<Rightarrow>
           and_then (to_number pa) (\<lambda>na.
           and_then (to_number pb) (\<lambda>nb.
             Inr (case (na, nb) of (Some x, Some y) \<Rightarrow> on_numbers x y | _ \<Rightarrow> False)))))"

definition js_le :: "jsval \<Rightarrow> jsval \<Rightarrow> js_error + bool" where
  "js_le = js_compare (\<le>) string_le"

definition js_lt :: "jsval \<Rightarrow> jsval \<Rightarrow> js_error + bool" where
  "js_lt = js_compare (<) (\<lambda>x y. string_le x y \<and> x \<noteq> y)"

subsection \<open>Canonical serialization\<close>

definition hex_digit :: "nat \<Rightarrow> char" where
  "hex_digit n = ''0123456789abcdef'' ! (n mod 16)"

definition escape_char :: "char \<Rightarrow> string" where
  "escape_char c =
     (let n = (of_char c :: nat) in
      if n = 0x22 then [CHR 0x5C, CHR 0x22]
      else if n = 0x5C then [CHR 0x5C, CHR 0x5C]
      else if n = 0x08 then [CHR 0x5C, CHR ''b'']
      else if n = 0x0C then [CHR 0x5C, CHR ''f'']
      else if n = 0x0A then [CHR 0x5C, CHR ''n'']
      else if n = 0x0D then [CHR 0x5C, CHR ''r'']
      else if n = 0x09 then [CHR 0x5C, CHR ''t'']
      else if n < 0x20 then [CHR 0x5C, CHR ''u'', CHR ''0'', CHR ''0'', hex_digit (n div 16), hex_digit n]
      else [c])"

definition quote :: "string \<Rightarrow> string" where
  "quote s = CHR 0x22 # concat (map escape_char s) @ [CHR 0x22]"

text \<open>
  \<^verbatim>\<open>JSON.stringify(v)\<close>; \<open>None\<close> is the result \<^verbatim>\<open>undefined\<close>.  An array element that
  has no serialization prints as \<^verbatim>\<open>null\<close>, an object property that has none is dropped,
  \<open>NaN\<close> prints as \<^verbatim>\<open>null\<close>.  Values are trees, so there are no cycles; objects that
  define \<^verbatim>\<open>toJSON\<close> are not covered.
\<close>

fun stringify :: "jsval \<Rightarrow> string option" where
  "stringify JUndefined = None"
| "stringify JNull = Some ''null''"
| "stringify (JBool b) = Some (if b then ''true'' else ''false'')"
| "stringify (JNum n) = Some (show_int n)"
| "stringify JNaN = Some ''null''"
| "stringify (JStr s) = Some (quote s)"
| "stringify (JArr xs) =
     Some (''['' @ join '','' (map (\<lambda>x. case stringify x of None \<Rightarrow> ''null'' | Some t \<Rightarrow> t) xs) @ '']'')"
| "stringify (JObj fs) =
     Some (''{'' @ join '',''
        (concat (map (\<lambda>p. case stringify (snd p) of None \<Rightarrow> [] | Some t \<Rightarrow> [quote (fst p) @ '':'' @ t]) fs))
        @ ''}'')"
| "stringify (JFun fs) = None"

section \<open>Validators of the resolver metadata\<close>

definition checkResolverHasField :: "jsval \<Rightarrow> jsval \<Rightarrow> js_error + bool" where
  "checkResolverHasField resolverMeta assertion =
     and_then (js_get assertion ''field'') (\<lambda>field.
     and_then (js_get resolverMeta (to_string field)) (\<lambda>actual.
     and_then (js_get assertion ''expected'') (\<lambda>expected.
       Inr (strict_eq actual expected))))"

definition checkResolverInputsValid :: "jsval \<Rightarrow> js_error + bool" where
  "checkResolverInputsValid resolverMeta =
     and_then (js_get resolverMeta ''inputs'') (\<lambda>inputs.
       case inputs of
         JArr xs \<Rightarrow>
           every (\<lambda>i. and_also (Inr (truthy i))
                      (and_also (typeof_is i ''name'' ''string'')
                      (and_also (typeof_is i ''type'' ''string'')
                                (typeof_is i ''required'' ''boolean'')))) xs
       | _ \<Rightarrow> Inr False)"

definition checkResolverOutputsValid :: "jsval \<Rightarrow> js_error + bool" where
  "checkResolverOutputsValid resolverMeta =
     and_then (js_get resolverMeta ''outputs'') (\<lambda>outputs.
       case outputs of
         JArr xs \<Rightarrow>
           every (\<lambda>out. and_also (Inr (truthy out))
                        (and_also (typeof_is out ''name'' ''string'')
                                  (typeof_is out ''type'' ''string''))) xs
       | _ \<Rightarrow> Inr False)"

text \<open>The pattern \<^verbatim>\<open>/^[a-zA-Z][a-zA-Z0-9_]*$/\<close>.\<close>

definition is_letter :: "char \<Rightarrow> bool" where
  "is_letter c =
     (let n = (of_char c :: nat) in (65 \<le> n \<and> n \<le> 90) \<or> (97 \<le> n \<and> n \<le> 122))"

definition is_word_char :: "char \<Rightarrow> bool" where
  "is_word_char c = (is_letter c \<or> is_digit c \<or> c = CHR ''_'')"

definition pattern_test :: "jsval \<Rightarrow> bool" where
  "pattern_test v =
     (case to_string v of [] \<Rightarrow> False | c # cs \<Rightarrow> is_letter c \<and> list_all is_word_char cs)"

definition checkFieldNamesNormalized :: "jsval \<Rightarrow> jsval \<Rightarrow> js_error + bool" where
  "checkFieldNamesNormalized resolverMeta assertion =
     and_then (js_get assertion ''field'') (\<lambda>field.
     and_then (js_get resolverMeta (to_string field)) (\<lambda>found.
       case js_or found (JArr []) of
         JArr items \<Rightarrow>
           every (\<lambda>item. and_then (js_get item ''name'') (\<lambda>name. Inr (pattern_test name))) items
       | _ \<Rightarrow> Inr False))"

definition checkResolverFailuresValid :: "jsval \<Rightarrow> js_error + bool" where
  "checkResolverFailuresValid resolverMeta =
     and_then (js_get resolverMeta ''failures'') (\<lambda>failures.
       if \<not> truthy failures then Inr False
       else case failures of
         JArr xs \<Rightarrow>
           every (\<lambda>f. and_also (Inr (truthy f))
                      (and_also (typeof_is f ''code'' ''string'')
                                (typeof_is f ''retries'' ''number''))) xs
       | _ \<Rightarrow> Inr False)"

section \<open>Validators of the resolver at run time\<close>

definition checkResolverIsCallable :: "jsval \<Rightarrow> bool" where
  "checkResolverIsCallable resolver = (typeof resolver = ''function'')"

definition checkFailureCodeDeclared :: "jsval \<Rightarrow> jsval \<Rightarrow> js_error + bool" where
  "checkFailureCodeDeclared observedError resolverMeta =
     (if \<not> truthy (js_get_opt observedError ''code'') then Inr True
      else
        and_then (js_get resolverMeta ''failures'') (\<lambda>failures.
        and_then (as_array_for ''map'' (js_or failures (JArr []))) (\<lambda>fs.
        and_then (map_each (\<lambda>f. js_get f ''code'') fs) (\<lambda>declaredCodes.
        and_then (js_get observedError ''code'') (\<lambda>code.
          Inr (array_includes declaredCodes code))))))"

definition checkRejectsMissingRequiredInput :: "jsval \<Rightarrow> js_error + bool" where
  "checkRejectsMissingRequiredInput invocationResult =
     and_then (js_get invocationResult ''threw'') (\<lambda>threw.
       if truthy threw then Inr True
       else
         and_then (js_get invocationResult ''output'') (\<lambda>output.
           and_also (Inr (\<not> nullish output))
          (and_also (Inr (typeof output = ''object''))
          (and_also (Inr (\<not> isArray output))
                    (js_in ''error'' output)))))"

definition checkRetryCountWithinLimit :: "jsval \<Rightarrow> jsval \<Rightarrow> jsval \<Rightarrow> js_error + bool" where
  "checkRetryCountWithinLimit observedRetries resolverMeta errorCode =
     and_then (js_get resolverMeta ''failures'') (\<lambda>failures.
     and_then (as_array_for ''find'' (js_or failures (JArr []))) (\<lambda>fs.
     and_then (find_first (\<lambda>f. and_then (js_get f ''code'') (\<lambda>c. Inr (strict_eq c errorCode))) fs)
       (\<lambda>failure.
          case failure of
            None \<Rightarrow> Inr True
          | Some f \<Rightarrow>
              if \<not> truthy f then Inr True
              else and_then (js_get f ''retries'') (\<lambda>r. js_le observedRetries r))))"

definition checkOutputIsObject :: "jsval \<Rightarrow> js_error + bool" where
  "checkOutputIsObject output =
     (if \<not> truthy output \<or> typeof output \<noteq> ''object'' \<or> isArray output then Inr False
      else
        and_then (js_in ''output'' output) (\<lambda>wrapped.
          if wrapped then
            and_then (js_get output ''output'') (\<lambda>inner.
              Inr (inner \<noteq> JNull \<and> typeof inner = ''object'' \<and> \<not> isArray inner))
          else Inr True))"

text \<open>The rich results of \<^verbatim>\<open>checkOutputFieldsMatchContract\<close>.\<close>

definition shape_failure :: "string \<Rightarrow> jsval \<Rightarrow> jsval" where
  "shape_failure reason output =
     JObj [(''passed'', JBool False),
           (''details'', JObj [(''reason'', JStr reason), (''actualOutput'', output)])]"

definition missing_fields_failure :: "jsval list \<Rightarrow> jsval \<Rightarrow> jsval list \<Rightarrow> jsval" where
  "missing_fields_failure missingFields actualOutput declaredNames =
     JObj [(''passed'', JBool False),
           (''details'', JObj [(''reason'', JStr ''missing_fields''),
                             (''missingFields'', JArr missingFields),
                             (''actualOutput'', actualOutput),
                             (''expectedFields'', JArr declaredNames)])]"

fun filter_missing :: "jsval \<Rightarrow> jsval list \<Rightarrow> js_error + jsval list" where
  "filter_missing actualOutput [] = Inr []"
| "filter_missing actualOutput (name # names) =
     and_then (js_in (to_string name) actualOutput) (\<lambda>present.
     and_then (filter_missing actualOutput names) (\<lambda>rest.
       Inr (if \<not> present then name # rest else rest)))"

definition checkOutputFieldsMatchContract :: "jsval \<Rightarrow> jsval \<Rightarrow> js_error + jsval" where
  "checkOutputFieldsMatchContract output resolverMeta =
     (if \<not> truthy output \<or> typeof output \<noteq> ''object'' then Inr (shape_failure ''no_output'' output)
      else
        and_then (js_in ''output'' output) (\<lambda>wrapped.
        and_then (if wrapped then js_get output ''output'' else Inr output) (\<lambda>actualOutput.
          if \<not> truthy actualOutput \<or> typeof actualOutput \<noteq> ''object''
          then Inr (shape_failure ''invalid_output_shape'' output)
          else
            and_then (js_get resolverMeta ''outputs'') (\<lambda>outputs.
            and_then (as_array_for ''map'' (js_or outputs (JArr []))) (\<lambda>os.
            and_then (map_each (\<lambda>out. js_get out ''name'') os) (\<lambda>declaredNames.
            and_then (filter_missing actualOutput declaredNames) (\<lambda>missingFields.
              if length missingFields > 0
              then Inr (missing_fields_failure missingFields actualOutput declaredNames)
              else Inr (JBool True))))))))"

text \<open>
  \<^verbatim>\<open>checkDeterministicOutput\<close> on an array of results, and on any other value found under
  \<^verbatim>\<open>outputs\<close>.
\<close>

definition deterministic :: "jsval list \<Rightarrow> bool" where
  "deterministic results =
     (if length results < 2 then True
      else let first = stringify (results ! 0)
           in list_all (\<lambda>r. stringify r = first) (drop 1 results))"

definition checkDeterministicOutput :: "jsval \<Rightarrow> js_error + bool" where
  "checkDeterministicOutput results =
     (case results of
        JArr xs \<Rightarrow> Inr (deterministic xs)
      | _ \<Rightarrow>
        and_then (js_get results ''length'') (\<lambda>len.
        and_then (js_lt len (JNum 2)) (\<lambda>few.
          if few then Inr True
          else case results of
                 JStr s \<Rightarrow> Inl TypeError
               | _ \<Rightarrow> and_then (as_array_for ''slice'' results) (\<lambda>xs. Inl TypeError))))"

definition checkNoGlobalMutation :: bool where
  "checkNoGlobalMutation = True"

section \<open>Guidance messages\<close>

text \<open>
  A message is kept as the template it is built from together with the values inserted
  into it; the fixed texts themselves are not spelled out.
\<close>

datatype tip = BankTip | TelegramTip | NoTip

datatype message =
    Description jsval
  | AssertionFailed jsval
  | UnknownAssertionType jsval
  | MissingFieldsGuidance "string option" "string list" tip
  | RejectsInputGuidance
  | OutputIsObjectGuidance
  | GenericGuidance

fun starts_with :: "string \<Rightarrow> string \<Rightarrow> bool" where
  "starts_with s [] = True"
| "starts_with [] (d # t) = False"
| "starts_with (c # s) (d # t) = (c = d \<and> starts_with s t)"

fun contains :: "string \<Rightarrow> string \<Rightarrow> bool" where
  "contains [] t = starts_with [] t"
| "contains (c # s) t = (starts_with (c # s) t \<or> contains s t)"

text \<open>\<^verbatim>\<open>v.includes(text)\<close> for a truthy value \<open>v\<close>: strings and arrays have the method.\<close>

definition value_includes :: "jsval \<Rightarrow> string \<Rightarrow> js_error + bool" where
  "value_includes v t =
     (case v of
        JStr s \<Rightarrow> Inr (contains s t)
      | JArr xs \<Rightarrow> Inr (array_includes xs (JStr t))
      | _ \<Rightarrow> and_then (js_get v ''includes'') (\<lambda>f. case f of JFun fs \<Rightarrow> Inl Unsupported | _ \<Rightarrow> Inl TypeError))"

definition getGuidanceMessage :: "jsval \<Rightarrow> jsval \<Rightarrow> jsval \<Rightarrow> js_error + message" where
  "getGuidanceMessage assertionType details resolverMeta =
     (let resolverName = js_or (js_get_opt resolverMeta ''resolverName'') (JStr ''unknown'') in
      if strict_eq assertionType (JStr ''output_fields_match_contract'') then
        and_then (js_get details ''reason'') (\<lambda>reason.
          if strict_eq reason (JStr ''missing_fields'') then
            and_then (value_includes resolverName ''bank'') (\<lambda>bank.
            and_then (if bank then Inr BankTip
                      else and_then (value_includes resolverName ''telegram'')
                             (\<lambda>telegram. Inr (if telegram then TelegramTip else NoTip))) (\<lambda>resolverTips.
            and_then (js_get details ''actualOutput'') (\<lambda>actualOutput.
            and_then (js_get details ''expectedFields'') (\<lambda>expectedFields.
            and_then (as_array_for ''map'' expectedFields) (\<lambda>fields.
              Inr (MissingFieldsGuidance (stringify actualOutput) (map to_string fields) resolverTips))))))
          else Inr GenericGuidance)
      else if strict_eq assertionType (JStr ''rejects_missing_required_input'') then Inr RejectsInputGuidance
      else if strict_eq assertionType (JStr ''output_is_object'') then Inr OutputIsObjectGuidance
      else Inr GenericGuidance)"

section \<open>The assertion handler registry\<close>

definition boolean :: "js_error + bool \<Rightarrow> js_error + jsval" where
  "boolean r = and_then r (\<lambda>b. Inr (JBool b))"

definition assertionHandlers :: "(string \<times> (jsval \<Rightarrow> jsval \<Rightarrow> jsval \<Rightarrow> js_error + jsval)) list" where
  "assertionHandlers =
     [(''resolver_has_field'', \<lambda>resolverMeta assertion status.
         boolean (checkResolverHasField resolverMeta assertion)),
      (''resolver_inputs_valid'', \<lambda>resolverMeta assertion status.
         boolean (checkResolverInputsValid resolverMeta)),
      (''resolver_outputs_valid'', \<lambda>resolverMeta assertion status.
         boolean (checkResolverOutputsValid resolverMeta)),
      (''field_names_normalized'', \<lambda>resolverMeta assertion status.
         boolean (checkFieldNamesNormalized resolverMeta assertion)),
      (''resolver_failures_valid'', \<lambda>resolverMeta assertion status.
         boolean (checkResolverFailuresValid resolverMeta)),
      (''resolver_is_callable'', \<lambda>ctx assertion status.
         and_then (js_get ctx ''resolver'') (\<lambda>resolver. Inr (JBool (checkResolverIsCallable resolver)))),
      (''resolver_failure_declared'', \<lambda>ctx assertion status.
         and_then (js_get ctx ''error'') (\<lambda>error.
         and_then (js_get ctx ''resolverMeta'') (\<lambda>resolverMeta.
           boolean (checkFailureCodeDeclared error resolverMeta)))),
      (''rejects_missing_required_input'', \<lambda>ctx assertion status.
         boolean (checkRejectsMissingRequiredInput ctx)),
      (''retry_count_within_declared_limit'', \<lambda>ctx assertion status.
         and_then (js_get ctx ''retryCount'') (\<lambda>retryCount.
         and_then (js_get ctx ''resolverMeta'') (\<lambda>resolverMeta.
         and_then (js_get ctx ''error'') (\<lambda>error.
           boolean (checkRetryCountWithinLimit retryCount resolverMeta (js_get_opt error ''code'')))))),
      (''output_is_object'', \<lambda>ctx assertion status.
         and_then (js_get ctx ''output'') (\<lambda>output. boolean (checkOutputIsObject output))),
      (''output_fields_match_contract'', \<lambda>ctx assertion status.
         and_then (js_get ctx ''output'') (\<lambda>output.
         and_then (js_get ctx ''resolverMeta'') (\<lambda>resolverMeta.
           checkOutputFieldsMatchContract output resolverMeta))),
      (''deterministic_output'', \<lambda>ctx assertion status.
         and_then (js_get ctx ''outputs'') (\<lambda>outputs. boolean (checkDeterministicOutput outputs))),
      (''no_global_state_mutation'', \<lambda>ctx assertion status.
         Inr (JBool checkNoGlobalMutation))]"

definition handler_names :: "string list" where
  "handler_names = map fst assertionHandlers"

text \<open>
  The registry is a plain object, so \<^verbatim>\<open>type in assertionHandlers\<close> also holds for the
  names it inherits, and \<^verbatim>\<open>assertionHandlers[type](target, assertion, status)\<close> then calls
  the inherited method with the registry as receiver.
\<close>

definition registered :: "string \<Rightarrow> bool" where
  "registered k = (k \<in> set handler_names \<or> k \<in> set object_prototype_keys)"

definition inherited_call :: "string \<Rightarrow> jsval \<Rightarrow> jsval \<Rightarrow> jsval \<Rightarrow> js_error + jsval" where
  "inherited_call k target assertion status =
     (if k = ''constructor'' then
        Inr (case target of JObj fs \<Rightarrow> target | JArr xs \<Rightarrow> target | JFun fs \<Rightarrow> target | _ \<Rightarrow> JObj [])
      else if k = ''toString'' \<or> k = ''toLocaleString'' then Inr (JStr ''[object Object]'')
      else if k = ''valueOf'' then Inr (JObj (map (\<lambda>n. (n, builtin n)) handler_names))
      else if k = ''hasOwnProperty'' \<or> k = ''propertyIsEnumerable'' then
        Inr (JBool (to_string target \<in> set handler_names))
      else if k = ''isPrototypeOf'' then Inr (JBool False)
      else if k = ''__lookupGetter__'' \<or> k = ''__lookupSetter__'' then
        Inr (if to_string target = ''__proto__'' then builtin ''__proto__'' else JUndefined)
      else if k = ''__defineGetter__'' \<or> k = ''__defineSetter__'' then
        (case assertion of JFun fs \<Rightarrow> Inl Unsupported | _ \<Rightarrow> Inl TypeError)
      else Inl TypeError)"

definition call_handler :: "string \<Rightarrow> jsval \<Rightarrow> jsval \<Rightarrow> jsval \<Rightarrow> js_error + jsval" where
  "call_handler k target assertion status =
     (case map_of assertionHandlers k of
        Some handler \<Rightarrow> handler target assertion status
      | None \<Rightarrow> inherited_call k target assertion status)"

section \<open>The assertion runner\<close>

record failure =
  failure_id :: jsval
  failure_severity :: jsval
  failure_message :: message

datatype report_message =
    NoAssertionsDefined
  | AllAssertionsPassed
  | JoinedFailures "failure list"

text \<open>The report for a spec without assertions carries no \<^verbatim>\<open>failures\<close> field.\<close>

record report =
  ok :: bool
  message :: report_message
  failures :: "failure list option"

text \<open>One iteration of the loop over the assertions: \<open>collected\<close> is the list \<^verbatim>\<open>failures\<close> so far.\<close>

definition assertion_step :: "jsval \<Rightarrow> jsval \<Rightarrow> jsval \<Rightarrow> failure list \<Rightarrow> js_error + failure list" where
  "assertion_step assertion target status collected =
     and_then (js_get assertion ''id'') (\<lambda>id.
     and_then (js_get assertion ''type'') (\<lambda>type.
     and_then (js_get assertion ''severity'') (\<lambda>given.
     and_then (js_get assertion ''description'') (\<lambda>description.
       let severity = (if given = JUndefined then JStr ''fatal'' else given) in
       if registered (to_string type) then
         and_then (call_handler (to_string type) target assertion status) (\<lambda>result.
         and_then (if typeof result = ''object'' \<and> result \<noteq> JNull
                   then and_then (js_get result ''passed'') (\<lambda>passed.
                        and_then (js_get result ''details'') (\<lambda>details. Inr (passed, details)))
                   else Inr (result, JNull)) (\<lambda>(passed, details).
           if \<not> truthy passed then
             and_then (if truthy details
                       then and_then (js_get status ''resolverMeta'') (\<lambda>resolverMeta.
                              getGuidanceMessage type details (js_or resolverMeta target))
                       else Inr (if truthy description then Description description
                                 else AssertionFailed id)) (\<lambda>msg.
               Inr (collected @ [\<lparr>failure_id = id, failure_severity = severity,
                                  failure_message = msg\<rparr>]))
           else Inr collected))
       else
         Inr (collected @ [\<lparr>failure_id = id, failure_severity = severity,
                            failure_message = UnknownAssertionType type\<rparr>])))))"

fun assertion_loop :: "jsval list \<Rightarrow> jsval \<Rightarrow> jsval \<Rightarrow> failure list \<Rightarrow> js_error + failure list" where
  "assertion_loop [] target status collected = Inr collected"
| "assertion_loop (assertion # rest) target status collected =
     and_then (assertion_step assertion target status collected) (\<lambda>collected'.
       assertion_loop rest target status collected')"

text \<open>What \<^verbatim>\<open>for (const assertion of v)\<close> iterates over.\<close>

definition iterate :: "jsval \<Rightarrow> js_error + jsval list" where
  "iterate v =
     (case v of
        JArr xs \<Rightarrow> Inr xs
      | JStr s \<Rightarrow> Inr (map (\<lambda>c. JStr [c]) s)
      | _ \<Rightarrow> Inl TypeError)"

definition runAssertions :: "jsval \<Rightarrow> jsval \<Rightarrow> jsval \<Rightarrow> js_error + report" where
  "runAssertions testSpec target given_status =
     (let status = (if given_status = JUndefined then JObj [] else given_status) in
      and_then (js_get testSpec ''assertions'') (\<lambda>assertions.
        if \<not> truthy (js_get_opt assertions ''length'')
        then Inr \<lparr>ok = True, message = NoAssertionsDefined, failures = None\<rparr>
        else
          and_then (iterate assertions) (\<lambda>items.
          and_then (assertion_loop items target status []) (\<lambda>collected.
            Inr \<lparr>ok = (length collected = 0),
                 message = (if length collected = 0 then AllAssertionsPassed
                            else JoinedFailures collected),
                 failures = Some collected\<rparr>))))"

section \<open>The observation harness\<close>

text \<open>
  The resolver is a JavaScript value together with what calling it does: a call takes the
  input and the resolver's hidden state and ends in one of three ways once awaited.  A
  value that is not a function cannot be called; the call then throws a TypeError, which
  the harness catches like any other thrown value.
\<close>

datatype outcome = Returns jsval | Throws jsval | NeverSettles

type_synonym 's behaviour = "jsval \<Rightarrow> 's \<Rightarrow> outcome \<times> 's"

definition not_a_function :: jsval where
  "not_a_function = JObj [(''message'', JStr ''resolver is not a function'')]"

definition call_resolver :: "jsval \<Rightarrow> 's behaviour \<Rightarrow> jsval \<Rightarrow> 's \<Rightarrow> outcome \<times> 's" where
  "call_resolver f behaviour input s =
     (case f of JFun fs \<Rightarrow> behaviour input s | _ \<Rightarrow> (Throws not_a_function, s))"

record invocation_context =
  resolver :: jsval
  resolverMeta :: jsval
  "output" :: jsval
  outputs :: "jsval list"
  error :: jsval
  threw :: bool
  retryCount :: jsval

definition context_value :: "invocation_context \<Rightarrow> jsval" where
  "context_value ctx =
     JObj [(''resolver'', resolver ctx), (''resolverMeta'', resolverMeta ctx),
           (''output'', output ctx), (''outputs'', JArr (outputs ctx)),
           (''error'', error ctx), (''threw'', JBool (threw ctx)),
           (''retryCount'', retryCount ctx)]"

text \<open>How a run of the engine ends: with a value, with an exception, or not at all.\<close>

datatype 'a completion = Returned 'a | Raised js_error | NeverReturns

text \<open>The input handed to the resolver.\<close>

definition resolver_input :: "jsval \<Rightarrow> jsval \<Rightarrow> js_error + jsval" where
  "resolver_input meta fixture =
     (if strict_eq (js_get_opt fixture ''invoke'') (JStr ''__USE_RESOLVER_EXAMPLE_ACTION__'') then
        (let exampleAction = js_get_opt meta ''exampleAction'' in
         if \<not> truthy exampleAction then Inl ConfigError else Inr exampleAction)
      else Inr (js_or (js_get_opt fixture ''invoke'') (JObj [])))"

text \<open>The \<^verbatim>\<open>catch\<close> block of a trial.\<close>

definition record_throw :: "invocation_context \<Rightarrow> jsval \<Rightarrow> jsval \<Rightarrow> js_error + invocation_context" where
  "record_throw ctx meta err =
     (let ctx' = ctx\<lparr>threw := True, error := err\<rparr> in
      and_then (js_get err ''code'') (\<lambda>code.
        if truthy code then
          and_then (js_get meta ''failures'') (\<lambda>declared.
            if nullish declared then Inr ctx'
            else
              and_then (as_array_for ''find'' declared) (\<lambda>fs.
              and_then (find_first (\<lambda>f. and_then (js_get f ''code'') (\<lambda>c. Inr (strict_eq c code))) fs)
                (\<lambda>decl.
                   case decl of
                     None \<Rightarrow> Inr ctx'
                   | Some d \<Rightarrow>
                       if truthy d
                       then and_then (js_get d ''retries'') (\<lambda>r. Inr (ctx'\<lparr>retryCount := r\<rparr>))
                       else Inr ctx')))
        else Inr ctx'))"

text \<open>
  The loop over the trials, with \<open>n\<close> trials left.  Besides the context it returns the
  calls it made, in order, each with the input passed and the outcome, and the resolver's
  state afterwards.
\<close>

type_synonym call = "jsval \<times> outcome"

fun trials ::
  "nat \<Rightarrow> jsval \<Rightarrow> 's behaviour \<Rightarrow> jsval \<Rightarrow> jsval \<Rightarrow> invocation_context \<Rightarrow> call list \<Rightarrow> 's
     \<Rightarrow> (invocation_context \<times> call list) completion \<times> 's" where
  "trials 0 f behaviour meta input ctx calls s = (Returned (ctx, calls), s)"
| "trials (Suc n) f behaviour meta input ctx calls s =
     (case call_resolver f behaviour input s of
        (Returns result, s') \<Rightarrow>
          trials n f behaviour meta input
            (ctx\<lparr>output := result, outputs := outputs ctx @ [result]\<rparr>) (calls @ [(input, Returns result)]) s'
      | (Throws err, s') \<Rightarrow>
          (case record_throw ctx meta err of
             Inl e \<Rightarrow> (Raised e, s')
           | Inr ctx' \<Rightarrow> (Returned (ctx', calls @ [(input, Throws err)]), s'))
      | (NeverSettles, s') \<Rightarrow> (NeverReturns, s'))"

definition runs_for :: "jsval \<Rightarrow> nat" where
  "runs_for test_id = (if strict_eq test_id (JStr ''R-011-determinism'') then 3 else 1)"

definition invokeResolverWithObservation ::
  "jsval \<Rightarrow> 's behaviour \<Rightarrow> jsval \<Rightarrow> jsval \<Rightarrow> jsval \<Rightarrow> 's
     \<Rightarrow> (invocation_context \<times> call list) completion \<times> 's" where
  "invokeResolverWithObservation f behaviour meta testSpec fixture s =
     (let ctx = \<lparr>resolver = f, resolverMeta = meta, output = JNull, outputs = [],
                  error = JNull, threw = False, retryCount = JNum 0\<rparr> in
      case resolver_input meta fixture of
        Inl e \<Rightarrow> (Raised e, s)
      | Inr input \<Rightarrow>
          (case js_get testSpec ''test_id'' of
             Inl e \<Rightarrow> (Raised e, s)
           | Inr test_id \<Rightarrow> trials (runs_for test_id) f behaviour meta input ctx [] s))"

section \<open>The suite executor\<close>

text \<open>
  The file system and the module loader are inputs of the model: per suite the parsed
  \<^verbatim>\<open>test.json\<close>, the parsed local fixture override, and what loading the contract
  module named by the fixture gives.  Console output is not modelled.
\<close>

datatype 'a json_file = Absent | Unparsable | Content 'a

datatype load = ContractMissing | ContractThrows | ContractModule jsval

record world =
  spec_of :: "string \<Rightarrow> jsval json_file"
  override_of :: "string \<Rightarrow> jsval json_file"
  contract_of :: "string \<Rightarrow> string \<Rightarrow> load"

text \<open>The static branch: the assertions run against the loaded module as it is.\<close>

definition static_contract_suite :: "world \<Rightarrow> string \<Rightarrow> jsval \<Rightarrow> jsval \<Rightarrow> nat \<Rightarrow> nat completion" where
  "static_contract_suite w suite testSpec contract_path failed =
     (case contract_path of
        JStr path \<Rightarrow>
          (case contract_of w suite path of
             ContractMissing \<Rightarrow> Returned (failed + 1)
           | ContractThrows \<Rightarrow> Returned (failed + 1)
           | ContractModule target \<Rightarrow>
               (case runAssertions testSpec target JUndefined of
                  Inl e \<Rightarrow> Raised e
                | Inr result \<Rightarrow> Returned (if \<not> ok result then failed + 1 else failed)))
      | _ \<Rightarrow> Raised TypeError)"

text \<open>The runtime branch: everything thrown inside it counts the suite as failed.\<close>

definition runtime_suite ::
  "jsval \<Rightarrow> 's behaviour \<Rightarrow> jsval \<Rightarrow> jsval \<Rightarrow> jsval \<Rightarrow> nat \<Rightarrow> 's \<Rightarrow> nat completion \<times> 's" where
  "runtime_suite f behaviour meta testSpec fixture failed s =
     (case invokeResolverWithObservation f behaviour meta testSpec fixture s of
        (Returned (runtimeContext, calls), s') \<Rightarrow>
          (case runAssertions testSpec (context_value runtimeContext) (JObj [(''resolverMeta'', meta)]) of
             Inl e \<Rightarrow> (Returned (failed + 1), s')
           | Inr result \<Rightarrow> (Returned (if \<not> ok result then failed + 1 else failed), s'))
      | (Raised e, s') \<Rightarrow> (Returned (failed + 1), s')
      | (NeverReturns, s') \<Rightarrow> (NeverReturns, s'))"

definition run_suite ::
  "world \<Rightarrow> jsval \<Rightarrow> 's behaviour \<Rightarrow> jsval \<Rightarrow> string \<Rightarrow> nat \<Rightarrow> 's \<Rightarrow> nat completion \<times> 's" where
  "run_suite w f behaviour meta suite failed s =
     (case spec_of w suite of
        Absent \<Rightarrow> (Returned (failed + 1), s)
      | Unparsable \<Rightarrow> (Raised SyntaxError, s)
      | Content testSpec \<Rightarrow>
          (case and_then (js_get testSpec ''fixtures'') (\<lambda>fixtures.
                and_then (js_get fixtures ''inputs'') (\<lambda>inputs. js_get inputs ''0'')) of
             Inl e \<Rightarrow> (Raised e, s)
           | Inr first \<Rightarrow>
               (case override_of w suite of
                  Unparsable \<Rightarrow> (Raised SyntaxError, s)
                | chosen \<Rightarrow>
                    (let fixture = (case chosen of Content local \<Rightarrow> local | _ \<Rightarrow> first) in
                     case js_get fixture ''resolver_contract'' of
                       Inl e \<Rightarrow> (Raised e, s)
                     | Inr contract_path \<Rightarrow>
                         if truthy contract_path
                         then (static_contract_suite w suite testSpec contract_path failed, s)
                         else
                           (case js_get testSpec ''category'' of
                              Inl e \<Rightarrow> (Raised e, s)
                            | Inr category \<Rightarrow>
                                if strict_eq category (JStr ''resolver-runtime'')
                                then runtime_suite f behaviour meta testSpec fixture failed s
                                else (Returned (failed + 1), s))))))"

fun suite_loop ::
  "world \<Rightarrow> jsval \<Rightarrow> 's behaviour \<Rightarrow> jsval \<Rightarrow> string list \<Rightarrow> nat \<Rightarrow> 's \<Rightarrow> nat completion \<times> 's" where
  "suite_loop w f behaviour meta [] failed s = (Returned failed, s)"
| "suite_loop w f behaviour meta (suite # suites) failed s =
     (case run_suite w f behaviour meta suite failed s of
        (Returned failed', s') \<Rightarrow> suite_loop w f behaviour meta suites failed' s'
      | stopped \<Rightarrow> stopped)"

definition runAllTests ::
  "world \<Rightarrow> string list \<Rightarrow> jsval \<Rightarrow> 's behaviour \<Rightarrow> 's \<Rightarrow> nat completion \<times> 's" where
  "runAllTests w suites f behaviour s =
     (case js_get f ''resolverDeclaration'' of
        Inl e \<Rightarrow> (Raised e, s)
      | Inr declaration \<Rightarrow>
          (let meta = js_or declaration f;
               resolverName = js_or (js_get_opt meta ''resolverName'') (JStr ''unknown'') in
           case value_includes resolverName ''bank'' of
             Inl e \<Rightarrow> (Raised e, s)
           | Inr bank \<Rightarrow> suite_loop w f behaviour meta suites 0 s))"

section \<open>Notions used by the specification\<close>

text \<open>An element of \<^verbatim>\<open>failures\<close> with a string \<^verbatim>\<open>code\<close> and a numeric \<^verbatim>\<open>retries\<close>.\<close>

definition has_code_and_retries :: "jsval \<Rightarrow> bool" where
  "has_code_and_retries f =
     (typeof (js_get_opt f ''code'') = ''string'' \<and> typeof (js_get_opt f ''retries'') = ''number'')"

text \<open>The \<^verbatim>\<open>failures\<close> field is a sequence of such elements.\<close>

definition failures_wellformed :: "jsval \<Rightarrow> bool" where
  "failures_wellformed meta =
     (case js_get_opt meta ''failures'' of JArr xs \<Rightarrow> list_all has_code_and_retries xs | _ \<Rightarrow> False)"

text \<open>The same, and the sequence is not empty: the wording of the specification.\<close>

definition failures_wellformed_nonempty :: "jsval \<Rightarrow> bool" where
  "failures_wellformed_nonempty meta =
     (case js_get_opt meta ''failures'' of
        JArr xs \<Rightarrow> xs \<noteq> [] \<and> list_all has_code_and_retries xs
      | _ \<Rightarrow> False)"

text \<open>The codes listed in \<^verbatim>\<open>declaration.failures[].code\<close>.\<close>

definition declared_codes :: "jsval \<Rightarrow> jsval list" where
  "declared_codes meta =
     (case js_get_opt meta ''failures'' of JArr fs \<Rightarrow> map (\<lambda>f. js_get_opt f ''code'') fs | _ \<Rightarrow> [])"

text \<open>
  The wording of the specification for \<^verbatim>\<open>resolver_failure_declared\<close>: pass when no
  error occurred, otherwise the code of the thrown error must be among the declared codes.
\<close>

definition failure_code_declared_spec :: "jsval \<Rightarrow> jsval \<Rightarrow> bool" where
  "failure_code_declared_spec err meta =
     (if err = JNull then True else array_includes (declared_codes meta) (js_get_opt err ''code''))"

text \<open>
  A declaration whose \<^verbatim>\<open>failures\<close> can be listed: the field is absent (or falsy), or
  it is a sequence without \<^verbatim>\<open>null\<close> and \<^verbatim>\<open>undefined\<close> elements.
\<close>

definition failures_readable :: "jsval \<Rightarrow> bool" where
  "failures_readable meta =
     (case js_get meta ''failures'' of
        Inr (JArr fs) \<Rightarrow> list_all (\<lambda>f. \<not> nullish f) fs
      | Inr v \<Rightarrow> \<not> truthy v
      | Inl e \<Rightarrow> False)"

text \<open>Equality of two values via their canonical serialization.\<close>

definition serially_equal :: "jsval \<Rightarrow> jsval \<Rightarrow> bool" where
  "serially_equal a b = (stringify a = stringify b)"

text \<open>The declaration of the scenarios in the specification.\<close>

definition example_declaration :: jsval where
  "example_declaration =
     JObj [(''resolverName'', JStr ''bank-lookup''),
           (''inputs'', JArr [JObj [(''name'', JStr ''amount''), (''type'', JStr ''number''),
                                   (''required'', JBool True)]]),
           (''outputs'', JArr [JObj [(''name'', JStr ''balance''), (''type'', JStr ''number'')]]),
           (''failures'', JArr [JObj [(''code'', JStr ''NOT_FOUND''), (''retries'', JNum 2)]])]"

text \<open>\<^verbatim>\<open>k in v\<close> as a truth value, for a value \<open>v\<close> that is an object.\<close>

definition has_property :: "jsval \<Rightarrow> string \<Rightarrow> bool" where
  "has_property v k = (case js_in k v of Inr b \<Rightarrow> b | Inl e \<Rightarrow> False)"

text \<open>The properties a value holds itself, without those it inherits.\<close>

definition own_property :: "jsval \<Rightarrow> string \<Rightarrow> bool" where
  "own_property v k =
     (case v of
        JObj fs \<Rightarrow> k \<in> fst ` set fs
      | JArr xs \<Rightarrow> k = ''length'' \<or> array_index (length xs) k \<noteq> None
      | JFun fs \<Rightarrow> k \<in> fst ` set fs
      | _ \<Rightarrow> False)"

text \<open>The output object after the choice between kernel mode and direct mode.\<close>

definition resolved_output :: "jsval \<Rightarrow> jsval" where
  "resolved_output out = (if has_property out ''output'' then js_get_opt out ''output'' else out)"

text \<open>The names listed in \<^verbatim>\<open>declaration.outputs[].name\<close>.\<close>

definition declared_output_names :: "jsval \<Rightarrow> jsval list" where
  "declared_output_names meta =
     (case js_get_opt meta ''outputs'' of JArr os \<Rightarrow> map (\<lambda>out. js_get_opt out ''name'') os | _ \<Rightarrow> [])"

text \<open>
  A declaration whose \<^verbatim>\<open>outputs\<close> can be listed: the field is absent (or falsy), or it
  is a sequence without \<^verbatim>\<open>null\<close> and \<^verbatim>\<open>undefined\<close> elements.
\<close>

definition outputs_readable :: "jsval \<Rightarrow> bool" where
  "outputs_readable meta =
     (case js_get meta ''outputs'' of
        Inr (JArr os) \<Rightarrow> list_all (\<lambda>out. \<not> nullish out) os
      | Inr v \<Rightarrow> \<not> truthy v
      | Inl e \<Rightarrow> False)"

text \<open>A truthy value of type \<^verbatim>\<open>object\<close>: a plain object or an array.\<close>

definition is_object :: "jsval \<Rightarrow> bool" where
  "is_object v = (truthy v \<and> typeof v = ''object'')"

text \<open>
  The result the specification gives for \<^verbatim>\<open>output_fields_match_contract\<close>, for a
  given reading \<open>present\<close> of when a declared name is present in the output object.
\<close>

definition fields_result :: "(jsval \<Rightarrow> string \<Rightarrow> bool) \<Rightarrow> jsval \<Rightarrow> jsval \<Rightarrow> jsval" where
  "fields_result present out meta =
     (if \<not> is_object out then shape_failure ''no_output'' out
      else if \<not> is_object (resolved_output out) then shape_failure ''invalid_output_shape'' out
      else
        let declaredNames = declared_output_names meta;
            missingFields = filter (\<lambda>name. \<not> present (resolved_output out) (to_string name)) declaredNames
        in if missingFields \<noteq> []
           then missing_fields_failure missingFields (resolved_output out) declaredNames
           else JBool True)"

text \<open>The results of the successful calls of a trace, in order.\<close>

definition returned_values :: "call list \<Rightarrow> jsval list" where
  "returned_values calls =
     List.map_filter (\<lambda>c. case snd c of Returns v \<Rightarrow> Some v | _ \<Rightarrow> None) calls"

text \<open>A trace of successful calls with the given input and results.\<close>

definition successes :: "jsval \<Rightarrow> jsval list \<Rightarrow> call list" where
  "successes input vs = map (\<lambda>v. (input, Returns v)) vs"

text \<open>The first declared failure whose code is the given one.\<close>

definition matching_failure :: "jsval \<Rightarrow> jsval \<Rightarrow> jsval option" where
  "matching_failure meta code =
     (case js_get_opt meta ''failures'' of
        JArr fs \<Rightarrow> find (\<lambda>f. strict_eq (js_get_opt f ''code'') code) fs
      | _ \<Rightarrow> None)"

text \<open>
  The retry count the harness records for a thrown error: the declared retries of the
  matching failure when the error carries a truthy code, and 0 otherwise.
\<close>

definition retry_after :: "jsval \<Rightarrow> jsval \<Rightarrow> jsval" where
  "retry_after meta err =
     (if truthy (js_get_opt err ''code'')
      then case matching_failure meta (js_get_opt err ''code'') of
             Some d \<Rightarrow> js_get_opt d ''retries''
           | None \<Rightarrow> JNum 0
      else JNum 0)"

text \<open>
  A trace is \<^emph>\<open>replayed\<close> from a state when its calls, made one after the other from that
  state, have the recorded outcomes; the result is the state after the last call.
\<close>

fun replay :: "jsval \<Rightarrow> 's behaviour \<Rightarrow> call list \<Rightarrow> 's \<Rightarrow> 's option" where
  "replay f behaviour [] s = Some s"
| "replay f behaviour (c # cs) s =
     (case call_resolver f behaviour (fst c) s of
        (result, s') \<Rightarrow> if result = snd c then replay f behaviour cs s' else None)"

text \<open>The fixture asks for the example of the declaration.\<close>

definition uses_example :: "jsval \<Rightarrow> bool" where
  "uses_example fixture =
     strict_eq (js_get_opt fixture ''invoke'') (JStr ''__USE_RESOLVER_EXAMPLE_ACTION__'')"

text \<open>The input the harness hands to the resolver.\<close>

definition constructed_input :: "jsval \<Rightarrow> jsval \<Rightarrow> jsval" where
  "constructed_input meta fixture =
     (if uses_example fixture then js_get_opt meta ''exampleAction''
      else if truthy (js_get_opt fixture ''invoke'') then js_get_opt fixture ''invoke''
      else JObj [])"

text \<open>The declaration has no \<^verbatim>\<open>exampleAction\<close>.\<close>

definition example_absent :: "jsval \<Rightarrow> bool" where
  "example_absent meta = (js_get_opt meta ''exampleAction'' = JUndefined)"

text \<open>
  The retry count in the wording of the specification: the declared retries of the failure
  whose code the thrown error carries, and 0 when there is none.
\<close>

definition retry_spec :: "jsval \<Rightarrow> jsval \<Rightarrow> jsval" where
  "retry_spec meta err =
     (case matching_failure meta (js_get_opt err ''code'') of
        Some d \<Rightarrow> js_get_opt d ''retries''
      | None \<Rightarrow> JNum 0)"

text \<open>The number of trials for a test identifier.\<close>

definition trial_limit :: "jsval \<Rightarrow> nat" where
  "trial_limit test_id = (if test_id = JStr ''R-011-determinism'' then 3 else 1)"

text \<open>Resolvers and declarations for the examples.\<close>

definition echo :: "unit behaviour" where
  "echo input s = (Returns input, s)"

definition always_throws :: "jsval \<Rightarrow> unit behaviour" where
  "always_throws e input s = (Throws e, s)"


definition two_then_not_found :: "nat behaviour" where
  "two_then_not_found input n =
     (if n < 2 then Returns (JNum (int n)) else Throws (JObj [(''code'', JStr ''NOT_FOUND'')]), n + 1)"

definition empty_code_declaration :: jsval where
  "empty_code_declaration = JObj [(''failures'', JArr [JObj [(''code'', JStr []), (''retries'', JNum 2)]])]"

definition empty_code_error :: jsval where
  "empty_code_error = JObj [(''code'', JStr []), (''message'', JStr ''x'')]"

text \<open>
  The context after a trial has thrown \<open>err\<close>, \<open>before\<close> being the retry count so far.
\<close>

definition thrown_state :: "jsval \<Rightarrow> jsval \<Rightarrow> jsval \<Rightarrow> invocation_context \<Rightarrow> bool" where
  "thrown_state before meta err ctx' =
     (threw ctx' \<and> error ctx' = err \<and> \<not> nullish err
      \<and> retryCount ctx' =
          (if truthy (js_get_opt err ''code'')
           then case matching_failure meta (js_get_opt err ''code'') of
                  Some d \<Rightarrow> js_get_opt d ''retries''
                | None \<Rightarrow> before
           else before))"

text \<open>
  The declared failures can be searched for a code: the \<^verbatim>\<open>failures\<close> field can be read
  and is absent, or it is a sequence with no \<^verbatim>\<open>null\<close> or \<^verbatim>\<open>undefined\<close> element before
  the first failure with that code.
\<close>

definition failures_searchable :: "jsval \<Rightarrow> jsval \<Rightarrow> bool" where
  "failures_searchable meta code =
     (case js_get meta ''failures'' of
        Inr (JArr fs) \<Rightarrow>
          list_all (\<lambda>f. \<not> nullish f) (takeWhile (\<lambda>f. \<not> strict_eq (js_get_opt f ''code'') code) fs)
      | Inr v \<Rightarrow> nullish v
      | Inl e \<Rightarrow> False)"

text \<open>
  A thrown error that the \<^verbatim>\<open>catch\<close> block of a trial records: it is not \<^verbatim>\<open>null\<close> or
  \<^verbatim>\<open>undefined\<close>, and when it carries a truthy code the declared failures can be searched
  for that code.
\<close>

definition error_recordable :: "jsval \<Rightarrow> jsval \<Rightarrow> bool" where
  "error_recordable meta err =
     (\<not> nullish err
      \<and> (if truthy (js_get_opt err ''code'') then failures_searchable meta (js_get_opt err ''code'')
         else True))"

text \<open>The test spec that holds one assertion only.\<close>

definition single_spec :: "jsval \<Rightarrow> jsval" where
  "single_spec a = JObj [(''assertions'', JArr [a])]"

text \<open>
  What an assertion does individually: the failures reported, whether it fails, and whether
  it throws, when the runner is given the spec that holds this assertion only.
\<close>

definition individual_failures :: "jsval \<Rightarrow> jsval \<Rightarrow> jsval \<Rightarrow> failure list" where
  "individual_failures a target status =
     (case runAssertions (single_spec a) target status of
        Inr r \<Rightarrow> (case failures r of Some fs \<Rightarrow> fs | None \<Rightarrow> [])
      | Inl e \<Rightarrow> [])"

definition fails_individually :: "jsval \<Rightarrow> jsval \<Rightarrow> jsval \<Rightarrow> bool" where
  "fails_individually a target status =
     (case runAssertions (single_spec a) target status of Inr r \<Rightarrow> \<not> ok r | Inl e \<Rightarrow> False)"

definition throws_individually :: "jsval \<Rightarrow> jsval \<Rightarrow> jsval \<Rightarrow> bool" where
  "throws_individually a target status =
     (case runAssertions (single_spec a) target status of Inr r \<Rightarrow> False | Inl e \<Rightarrow> True)"

text \<open>The entry recorded for an assertion of unknown type.\<close>

definition unknown_type_failure :: "jsval \<Rightarrow> failure" where
  "unknown_type_failure a =
     \<lparr>failure_id = js_get_opt a ''id'',
      failure_severity = (if js_get_opt a ''severity'' = JUndefined then JStr ''fatal''
                          else js_get_opt a ''severity''),
      failure_message = UnknownAssertionType (js_get_opt a ''type'')\<rparr>"

text \<open>The report built from the collected failures.\<close>

definition report_of :: "failure list \<Rightarrow> report" where
  "report_of collected =
     \<lparr>ok = (length collected = 0),
      message = (if length collected = 0 then AllAssertionsPassed else JoinedFailures collected),
      failures = Some collected\<rparr>"

text \<open>The status the runner works with: an omitted status is the empty object.\<close>

definition effective_status :: "jsval \<Rightarrow> jsval" where
  "effective_status status = (if status = JUndefined then JObj [] else status)"

text \<open>A step result that holds at most one failure.\<close>

definition short :: "js_error + failure list \<Rightarrow> bool" where
  "short r = (case r of Inr fs \<Rightarrow> length fs \<le> 1 | Inl e \<Rightarrow> True)"

text \<open>A contract module that wraps the declaration in a \<^verbatim>\<open>resolverDeclaration\<close> field.\<close>

definition wrapped :: "jsval \<Rightarrow> jsval" where
  "wrapped declaration = JObj [(''resolverDeclaration'', declaration)]"

text \<open>The metadata validators that read a field of the declaration unconditionally.\<close>

definition metadata_assertion_types :: "string list" where
  "metadata_assertion_types =
     [''resolver_inputs_valid'', ''resolver_outputs_valid'', ''resolver_failures_valid'']"

text \<open>A static-contract suite, and the world in which its contract file loads as \<open>m\<close>.\<close>

definition static_suite_spec :: jsval where
  "static_suite_spec =
     JObj [(''test_id'', JStr ''R-005-resolver-metadata''),
           (''assertions'', JArr [JObj [(''id'', JStr ''inputs''), (''type'', JStr ''resolver_inputs_valid'')]]),
           (''fixtures'', JObj [(''inputs'', JArr [JObj [(''resolver_contract'', JStr ''contract.js'')]])])]"

definition static_world :: "jsval \<Rightarrow> world" where
  "static_world m =
     \<lparr>spec_of = (\<lambda>suite. Content static_suite_spec),
      override_of = (\<lambda>suite. Absent),
      contract_of = (\<lambda>suite path. ContractModule m)\<rparr>"

text \<open>Targets and assertion lists for the examples.\<close>

definition malformed_inputs :: jsval where
  "malformed_inputs = JObj [(''inputs'', JArr [JNull])]"

definition names_then_inputs :: "jsval list" where
  "names_then_inputs =
     [JObj [(''id'', JStr ''names''), (''type'', JStr ''field_names_normalized''), (''field'', JStr ''inputs'')],
      JObj [(''id'', JStr ''inputs''), (''type'', JStr ''resolver_inputs_valid'')]]"

definition four_assertions :: "jsval list" where
  "four_assertions =
     [JObj [(''id'', JStr ''inputs''), (''type'', JStr ''resolver_inputs_valid''),
            (''description'', JStr ''inputs must be well formed'')],
      JObj [(''id'', JStr ''mystery''), (''type'', JStr ''no_such_check''), (''severity'', JStr ''warning'')],
      JObj [(''id'', JStr ''outputs''), (''type'', JStr ''resolver_outputs_valid'')],
      JObj [(''id'', JStr ''failures''), (''type'', JStr ''resolver_failures_valid'')]]"

definition outputs_only :: jsval where
  "outputs_only = JObj [(''inputs'', JStr ''none''), (''outputs'', JArr [])]"

text \<open>
  The values that a JSON document denotes, the text of a value, and what is needed to read a
  value back from the front of a text: the class of the first character, the characters that
  may follow a value inside a document, and the reading of one escaped character.
\<close>

definition numeric :: "char \<Rightarrow> bool" where
  "numeric c = (is_digit c \<or> c = CHR ''-'')"

definition closes :: "string \<Rightarrow> bool" where
  "closes r = (case r of [] \<Rightarrow> True | c # cs \<Rightarrow> c = CHR '','' \<or> c = CHR '']'' \<or> c = CHR ''}'')"

fun json_value :: "jsval \<Rightarrow> bool" where
  "json_value JNull = True"
| "json_value (JBool b) = True"
| "json_value (JNum n) = True"
| "json_value (JStr s) = True"
| "json_value (JArr xs) = list_all json_value xs"
| "json_value (JObj fs) = list_all (\<lambda>p. json_value (snd p)) fs"
| "json_value v = False"

definition text_of :: "jsval \<Rightarrow> string" where
  "text_of v = (case stringify v of Some t \<Rightarrow> t | None \<Rightarrow> [])"

definition entry_text :: "string \<times> jsval \<Rightarrow> string" where
  "entry_text p = quote (fst p) @ CHR '':'' # text_of (snd p)"

fun kind :: "jsval \<Rightarrow> nat" where
  "kind JNull = 0"
| "kind (JBool b) = 1"
| "kind (JNum n) = 2"
| "kind (JStr s) = 3"
| "kind (JArr xs) = 4"
| "kind (JObj fs) = 5"
| "kind v = 7"

definition kind_of_char :: "char \<Rightarrow> nat" where
  "kind_of_char c =
     (if c = CHR ''n'' then 0
      else if c = CHR ''t'' \<or> c = CHR ''f'' then 1
      else if numeric c then 2
      else if c = CHR 0x22 then 3
      else if c = CHR ''['' then 4
      else if c = CHR ''{'' then 5
      else 6)"

definition hex_value :: "char \<Rightarrow> nat" where
  "hex_value c = (let n = (of_char c :: nat) in if n < 58 then n - 48 else n - 87)"

text \<open>Reads one escaped character from the front of a string.\<close>

fun unescape :: "string \<Rightarrow> (char \<times> string) option" where
  "unescape [] = None"
| "unescape (a # rest) =
     (if a \<noteq> CHR 0x5C then Some (a, rest)
      else case rest of
        [] \<Rightarrow> None
      | b # rest' \<Rightarrow>
          if b = CHR 0x22 then Some (CHR 0x22, rest')
          else if b = CHR 0x5C then Some (CHR 0x5C, rest')
          else if b = CHR ''b'' then Some (CHR 0x08, rest')
          else if b = CHR ''f'' then Some (CHR 0x0C, rest')
          else if b = CHR ''n'' then Some (CHR 0x0A, rest')
          else if b = CHR ''r'' then Some (CHR 0x0D, rest')
          else if b = CHR ''t'' then Some (CHR 0x09, rest')
          else if b = CHR ''u'' then
            (case rest' of
               z1 # z2 # h1 # h2 # rest'' \<Rightarrow> Some (char_of (16 * hex_value h1 + hex_value h2), rest'')
             | _ \<Rightarrow> None)
          else None)"

section \<open>Basic facts\<close>

lemma and_then_simps [simp]:
  "and_then (Inr v) f = f v" "and_then (Inl e) f = Inl e"
  by (simp_all add: and_then_def)

lemma and_then_Inl_iff:
  "and_then m f = Inl e \<longleftrightarrow> m = Inl e \<or> (\<exists>v. m = Inr v \<and> f v = Inl e)"
  by (cases m) simp_all

lemma and_also_simps:
  "and_also (Inr c) b = (if c then b else Inr False)" "and_also (Inl e) b = Inl e"
  by (simp_all add: and_also_def)

lemma js_get_defined: "\<not> nullish v \<Longrightarrow> js_get v k = Inr (js_get_opt v k)"
  by (cases v) (simp_all add: js_get_opt_def)

lemma js_get_nullish: "nullish v \<Longrightarrow> js_get v k = Inl TypeError"
  by (cases v) simp_all

lemma truthy_not_nullish: "truthy v \<Longrightarrow> \<not> nullish v"
  by (cases v) simp_all

lemma typeof_is_defined: "\<not> nullish v \<Longrightarrow> typeof_is v k t = Inr (typeof (js_get_opt v k) = t)"
  by (simp add: typeof_is_def js_get_defined)

lemma js_get_opt_nullish: "nullish v \<Longrightarrow> js_get_opt v k = JUndefined"
  by (cases v) (simp_all add: js_get_opt_def)

lemma truthy_property_defined: "truthy (js_get_opt v k) \<Longrightarrow> js_get v k = Inr (js_get_opt v k)"
  using js_get_opt_nullish [of v k] by (cases "nullish v") (simp_all add: js_get_defined)

lemma map_each_get:
  "list_all (\<lambda>f. \<not> nullish f) fs \<Longrightarrow> map_each (\<lambda>f. js_get f k) fs = Inr (map (\<lambda>f. js_get_opt f k) fs)"
  by (induction fs) (simp_all add: js_get_defined)

section \<open>The validator of the declared failures\<close>

lemma falsy_has_no_code: "\<not> truthy v \<Longrightarrow> js_get_opt v ''code'' = JUndefined"
  by (cases v)
     (simp_all add: js_get_opt_def inherited_def inherited_from_object_def array_index_def
        number_prototype_keys_def string_prototype_keys_def object_prototype_keys_def)

lemma has_code_truthy: "has_code_and_retries f \<Longrightarrow> truthy f"
  using falsy_has_no_code [of f] by (cases "truthy f") (auto simp: has_code_and_retries_def)

lemma every_failure_entry:
  "every (\<lambda>f. and_also (Inr (truthy f))
               (and_also (typeof_is f ''code'' ''string'') (typeof_is f ''retries'' ''number''))) xs
   = Inr (list_all has_code_and_retries xs)"
proof (induction xs)
  case Nil
  show ?case by simp
next
  case (Cons f fs)
  show ?case
  proof (cases "truthy f")
    case True
    then have "\<not> nullish f" by (rule truthy_not_nullish)
    with True Cons show ?thesis
      by (simp add: typeof_is_defined has_code_and_retries_def and_also_simps)
  next
    case False
    then have "\<not> has_code_and_retries f" using has_code_truthy by blast
    with False show ?thesis by (simp add: and_also_simps)
  qed
qed

text \<open>
  C3, as the specification states it, fails: a declaration whose \<^verbatim>\<open>failures\<close> is the
  empty sequence passes \<^verbatim>\<open>resolver_failures_valid\<close>, because an empty array is truthy
  and every element of it is well formed.
\<close>

theorem failures_valid_empty_counterexample:
  "\<not> (checkResolverFailuresValid (JObj [(''failures'', JArr [])]) = Inr True
        \<longleftrightarrow> failures_wellformed_nonempty (JObj [(''failures'', JArr [])]))"
  by (simp add: checkResolverFailuresValid_def failures_wellformed_nonempty_def js_get_opt_def)

text \<open>
  C3 (amended): for every declaration, \<^verbatim>\<open>resolver_failures_valid\<close> passes iff the
  \<^verbatim>\<open>failures\<close> field is a sequence, possibly empty, in which every element has a string
  \<^verbatim>\<open>code\<close> and a numeric \<^verbatim>\<open>retries\<close>; an absent field fails.  (Called on
  \<^verbatim>\<open>null\<close> or \<^verbatim>\<open>undefined\<close> instead of a declaration, the validator throws.)
\<close>

theorem failures_valid_iff_wellformed_sequence:
  "checkResolverFailuresValid meta =
     (if nullish meta then Inl TypeError else Inr (failures_wellformed meta))
   \<and> call_handler ''resolver_failures_valid'' meta assertion status =
     (if nullish meta then Inl TypeError else Inr (JBool (failures_wellformed meta)))"
proof -
  have direct: "checkResolverFailuresValid meta =
     (if nullish meta then Inl TypeError else Inr (failures_wellformed meta))"
  proof (cases "nullish meta")
    case True
    then show ?thesis by (simp add: checkResolverFailuresValid_def js_get_nullish)
  next
    case False
    show ?thesis
    proof (cases "js_get_opt meta ''failures''")
      case (JArr xs)
      with False show ?thesis
        by (simp add: checkResolverFailuresValid_def js_get_defined failures_wellformed_def every_failure_entry)
    qed (use False in \<open>simp_all add: checkResolverFailuresValid_def js_get_defined failures_wellformed_def\<close>)
  qed
  have "call_handler ''resolver_failures_valid'' meta assertion status
          = boolean (checkResolverFailuresValid meta)"
    by (simp add: call_handler_def assertionHandlers_def)
  with direct show ?thesis by (simp add: boolean_def)
qed

theorem failures_valid_witness:
  "checkResolverFailuresValid (JObj [(''failures'', JArr [])]) = Inr True
   \<and> checkResolverFailuresValid (JObj []) = Inr False
   \<and> checkResolverFailuresValid example_declaration = Inr True
   \<and> call_handler ''resolver_failures_valid'' (JObj [(''failures'', JArr [])]) JNull JNull
       = Inr (JBool True)"
  using failures_valid_iff_wellformed_sequence [of "JObj [(''failures'', JArr [])]" JNull JNull]
        failures_valid_iff_wellformed_sequence [of "JObj []" JNull JNull]
        failures_valid_iff_wellformed_sequence [of example_declaration JNull JNull]
  by (simp add: failures_wellformed_def has_code_and_retries_def example_declaration_def
        js_get_opt_def inherited_from_object_def object_prototype_keys_def)

section \<open>The validator of normalized field names\<close>

text \<open>
  C10: \<^verbatim>\<open>field_names_normalized\<close> passes when the declaration has no value, or the
  value \<^verbatim>\<open>null\<close> or \<^verbatim>\<open>undefined\<close>, under the field named by
  \<^verbatim>\<open>assertion.field\<close>: the field is then taken as the empty list and the check succeeds
  vacuously.
\<close>

theorem field_names_normalized_absent:
  assumes "js_get assertion ''field'' = Inr field"
    and "js_get meta (to_string field) = Inr v"
    and "nullish v"
  shows "checkFieldNamesNormalized meta assertion = Inr True
       \<and> call_handler ''field_names_normalized'' meta assertion status = Inr (JBool True)"
proof -
  from \<open>nullish v\<close> have "js_or v (JArr []) = JArr []"
    by (cases v) (simp_all add: js_or_def)
  with assms(1,2) have "checkFieldNamesNormalized meta assertion = Inr True"
    by (simp add: checkFieldNamesNormalized_def)
  then show ?thesis
    by (simp add: call_handler_def assertionHandlers_def boolean_def)
qed

theorem field_names_normalized_absent_witness:
  "js_get (JObj [(''field'', JStr ''inputs'')]) ''field'' = Inr (JStr ''inputs'')
   \<and> js_get (JObj [(''resolverName'', JStr ''r'')]) (to_string (JStr ''inputs'')) = Inr JUndefined
   \<and> nullish JUndefined
   \<and> checkFieldNamesNormalized (JObj [(''resolverName'', JStr ''r'')]) (JObj [(''field'', JStr ''inputs'')]) = Inr True
   \<and> call_handler ''field_names_normalized'' (JObj [(''resolverName'', JStr ''r'')])
        (JObj [(''field'', JStr ''inputs'')]) (JObj []) = Inr (JBool True)"
proof -
  have a: "js_get (JObj [(''field'', JStr ''inputs'')]) ''field'' = Inr (JStr ''inputs'')" by simp
  have b: "js_get (JObj [(''resolverName'', JStr ''r'')]) (to_string (JStr ''inputs'')) = Inr JUndefined"
    by (simp add: inherited_from_object_def object_prototype_keys_def)
  have c: "nullish JUndefined" by simp
  show ?thesis using a b c field_names_normalized_absent [OF a b c, of "JObj []"] by simp
qed

section \<open>The validator of declared failure codes\<close>

text \<open>
  C4, as the specification states it, fails: a thrown error that carries no code passes
  \<^verbatim>\<open>resolver_failure_declared\<close>, although its code is not among the declared ones.
\<close>

theorem failure_code_declared_counterexample:
  "checkFailureCodeDeclared (JObj [(''message'', JStr ''boom'')]) example_declaration
     \<noteq> Inr (failure_code_declared_spec (JObj [(''message'', JStr ''boom'')]) example_declaration)"
  by (simp add: checkFailureCodeDeclared_def failure_code_declared_spec_def declared_codes_def
        example_declaration_def js_get_opt_def array_includes_def inherited_from_object_def
        object_prototype_keys_def)

text \<open>
  C4 (amended): \<^verbatim>\<open>resolver_failure_declared\<close> passes when no error occurred or the
  thrown error carries no code (a missing, empty or otherwise falsy \<^verbatim>\<open>code\<close>);
  otherwise, for a declaration whose \<^verbatim>\<open>failures\<close> is absent or a sequence without
  \<^verbatim>\<open>null\<close> elements, it passes iff the code of the thrown error appears among
  \<^verbatim>\<open>declaration.failures[].code\<close>.  The registered handler applies the validator to
  the error and the declaration of the invocation context.
\<close>

theorem failure_code_declared_amended:
  "(\<not> truthy (js_get_opt err ''code'') \<longrightarrow> checkFailureCodeDeclared err meta = Inr True)
   \<and> (truthy (js_get_opt err ''code'') \<and> failures_readable meta \<longrightarrow>
        checkFailureCodeDeclared err meta
          = Inr (array_includes (declared_codes meta) (js_get_opt err ''code'')))
   \<and> call_handler ''resolver_failure_declared'' (context_value ctx) assertion status
       = boolean (checkFailureCodeDeclared (error ctx) (resolverMeta ctx))"
proof (intro conjI impI)
  assume "\<not> truthy (js_get_opt err ''code'')"
  then show "checkFailureCodeDeclared err meta = Inr True"
    by (simp add: checkFailureCodeDeclared_def)
next
  assume a: "truthy (js_get_opt err ''code'') \<and> failures_readable meta"
  then have True: "truthy (js_get_opt err ''code'')" and readable: "failures_readable meta"
    by simp_all
  note code = truthy_property_defined [OF True]
  from readable obtain v where v: "js_get meta ''failures'' = Inr v"
    by (auto simp: failures_readable_def split: sum.splits)
  then have opt: "js_get_opt meta ''failures'' = v" by (simp add: js_get_opt_def)
  show "checkFailureCodeDeclared err meta
          = Inr (array_includes (declared_codes meta) (js_get_opt err ''code''))"
  proof (cases v)
    case (JArr fs)
    with readable v have "list_all (\<lambda>f. \<not> nullish f) fs" by (simp add: failures_readable_def)
    then show ?thesis using True v JArr opt code
      by (simp add: checkFailureCodeDeclared_def js_or_def as_array_for_def map_each_get declared_codes_def)
  qed (use readable v opt True code in \<open>simp_all add: failures_readable_def checkFailureCodeDeclared_def
         js_or_def as_array_for_def declared_codes_def array_includes_def\<close>)
next
  show "call_handler ''resolver_failure_declared'' (context_value ctx) assertion status
       = boolean (checkFailureCodeDeclared (error ctx) (resolverMeta ctx))"
    by (simp add: call_handler_def assertionHandlers_def context_value_def)
qed

theorem failure_code_declared_witness:
  "failures_readable example_declaration
   \<and> checkFailureCodeDeclared (JObj [(''code'', JStr ''TIMEOUT''), (''message'', JStr ''x'')])
         example_declaration = Inr False
   \<and> checkFailureCodeDeclared (JObj [(''code'', JStr ''NOT_FOUND'')]) example_declaration = Inr True
   \<and> checkFailureCodeDeclared JNull example_declaration = Inr True
   \<and> checkFailureCodeDeclared (JObj [(''message'', JStr ''boom'')]) example_declaration = Inr True"
proof -
  have h: "failures_readable example_declaration"
    by (simp add: failures_readable_def example_declaration_def)
  show ?thesis
    using h
      failure_code_declared_amended [of "JObj [(''code'', JStr ''TIMEOUT''), (''message'', JStr ''x'')]"
        example_declaration]
      failure_code_declared_amended [of "JObj [(''code'', JStr ''NOT_FOUND'')]" example_declaration]
      failure_code_declared_amended [of JNull example_declaration]
      failure_code_declared_amended [of "JObj [(''message'', JStr ''boom'')]" example_declaration]
    by (simp add: declared_codes_def example_declaration_def js_get_opt_def array_includes_def
          inherited_from_object_def object_prototype_keys_def)
qed

section \<open>The validator of deterministic output\<close>

lemma deterministic_iff:
  "deterministic results =
     (length results < 2 \<or> (\<forall>r \<in> set results. serially_equal r (hd results)))"
proof (cases results)
  case Nil
  then show ?thesis by (simp add: deterministic_def)
next
  case (Cons x xs)
  then show ?thesis
    by (cases xs) (auto simp: deterministic_def serially_equal_def list_all_iff Let_def)
qed

text \<open>
  Equal values have equal serializations, and the order of the properties of an object
  matters.  The serialization is not injective on all values: a property whose value is
  \<^verbatim>\<open>undefined\<close> is dropped, and \<open>NaN\<close> prints as \<^verbatim>\<open>null\<close>.
\<close>

lemma equal_values_serially_equal: "a = b \<Longrightarrow> serially_equal a b"
  by (simp add: serially_equal_def)

lemma serialization_is_order_sensitive:
  "\<not> serially_equal (JObj [(''a'', JNum 1), (''b'', JNum 2)]) (JObj [(''b'', JNum 2), (''a'', JNum 1)])"
  by (simp add: serially_equal_def show_int_def quote_def escape_char_def)

lemma serialization_identifies:
  "serially_equal (JObj [(''a'', JUndefined)]) (JObj [])"
  "serially_equal (JArr [JNaN]) (JArr [JNull])"
  by (simp_all add: serially_equal_def)

subsection \<open>The serialization determines a JSON value\<close>

text \<open>
  On the values that a JSON document denotes, the text of a value followed by the rest of a
  document determines the value and the rest; so two such values serialize alike only when
  they are equal.
\<close>

lemma of_digit_char: "(of_char (digit_char n) :: nat) = 48 + n mod 10"
proof -
  have "(48 + n mod 10) mod 256 = 48 + n mod 10"
    by (rule mod_less) (use mod_less_divisor [of 10 n] in linarith)
  then show ?thesis by simp
qed

lemma digit_char_inj: "digit_char n = digit_char m \<Longrightarrow> n mod 10 = m mod 10"
proof -
  assume "digit_char n = digit_char m"
  then have "(of_char (digit_char n) :: nat) = of_char (digit_char m)" by simp
  then show ?thesis by (simp add: of_digit_char del: digit_char.simps)
qed

lemma digit_char_is_digit: "is_digit (digit_char n)"
  unfolding is_digit_def of_digit_char
  using mod_less_divisor [of 10 n] by linarith

lemma show_nat_small: "n < 10 \<Longrightarrow> show_nat n = [digit_char n]"
  by (subst show_nat.simps) simp

lemma show_nat_large: "\<not> n < 10 \<Longrightarrow> show_nat n = show_nat (n div 10) @ [digit_char n]"
  by (subst show_nat.simps) simp

lemma show_nat_nonempty: "show_nat n \<noteq> []"
  by (cases "n < 10") (simp_all add: show_nat_small show_nat_large del: show_nat.simps)

lemma show_nat_inj: "show_nat n = show_nat m \<Longrightarrow> n = m"
proof (induction n arbitrary: m rule: show_nat.induct)
  case (1 n)
  show ?case
  proof (cases "n < 10")
    case True
    then have n: "show_nat n = [digit_char n]" by (rule show_nat_small)
    have "m < 10"
    proof (rule ccontr)
      assume "\<not> m < 10"
      then have "show_nat m = show_nat (m div 10) @ [digit_char m]" by (rule show_nat_large)
      with n "1.prems" show_nat_nonempty [of "m div 10"] show False
        by (simp del: show_nat.simps digit_char.simps)
    qed
    then have "show_nat m = [digit_char m]" by (rule show_nat_small)
    with n "1.prems" have "digit_char n = digit_char m" by (simp del: show_nat.simps digit_char.simps)
    then have "n mod 10 = m mod 10" by (rule digit_char_inj)
    with True \<open>m < 10\<close> show ?thesis by simp
  next
    case False
    then have n: "show_nat n = show_nat (n div 10) @ [digit_char n]" by (rule show_nat_large)
    have "\<not> m < 10"
    proof
      assume "m < 10"
      then have "show_nat m = [digit_char m]" by (rule show_nat_small)
      with n "1.prems" show_nat_nonempty [of "n div 10"] show False
        by (simp del: show_nat.simps digit_char.simps)
    qed
    then have m: "show_nat m = show_nat (m div 10) @ [digit_char m]" by (rule show_nat_large)
    from n m "1.prems" have eq: "show_nat (n div 10) = show_nat (m div 10)"
      and d: "digit_char n = digit_char m"
      by (simp_all del: show_nat.simps digit_char.simps)
    from "1.IH" [OF False eq] have "n div 10 = m div 10" .
    moreover from d have "n mod 10 = m mod 10" by (rule digit_char_inj)
    ultimately show ?thesis by (metis div_mult_mod_eq)
  qed
qed

lemma show_nat_digits: "list_all is_digit (show_nat n)"
proof (induction n rule: show_nat.induct)
  case (1 n)
  show ?case
  proof (cases "n < 10")
    case True
    then show ?thesis by (simp add: show_nat_small digit_char_is_digit del: show_nat.simps digit_char.simps)
  next
    case False
    with "1.IH" show ?thesis
      by (simp add: show_nat_large digit_char_is_digit del: show_nat.simps digit_char.simps)
  qed
qed

lemma minus_not_digit: "\<not> is_digit CHR ''-''"
  by (simp add: is_digit_def)

lemma show_int_inj: "show_int i = show_int j \<Longrightarrow> i = j"
proof -
  assume eq: "show_int i = show_int j"
  have first: "k \<ge> 0 \<Longrightarrow> is_digit (hd (show_int k))" for k
    using show_nat_digits [of "nat k"] show_nat_nonempty [of "nat k"]
    by (cases "show_nat (nat k)") (simp_all add: show_int_def del: show_nat.simps)
  have neg: "k < 0 \<Longrightarrow> hd (show_int k) = CHR ''-''" for k
    by (simp add: show_int_def del: show_nat.simps)
  show ?thesis
  proof (cases "i < 0")
    case True
    have "j < 0"
    proof (rule ccontr)
      assume "\<not> j < 0"
      then have "is_digit (hd (show_int j))" using first [of j] by simp
      with eq neg [OF True] minus_not_digit show False by simp
    qed
    with True eq have "show_nat (nat (- i)) = show_nat (nat (- j))"
      by (simp add: show_int_def del: show_nat.simps)
    then have "nat (- i) = nat (- j)" by (rule show_nat_inj)
    with True \<open>j < 0\<close> show ?thesis by simp
  next
    case False
    have "\<not> j < 0"
    proof
      assume "j < 0"
      from False have "is_digit (hd (show_int i))" using first [of i] by simp
      with eq neg [OF \<open>j < 0\<close>] minus_not_digit show False by simp
    qed
    with False eq have "show_nat (nat i) = show_nat (nat j)"
      by (simp add: show_int_def del: show_nat.simps)
    then have "nat i = nat j" by (rule show_nat_inj)
    with False \<open>\<not> j < 0\<close> show ?thesis by simp
  qed
qed

lemma show_int_numeric: "list_all numeric (show_int i)"
  using show_nat_digits [of "nat i"] show_nat_digits [of "nat (- i)"]
  by (auto simp: show_int_def numeric_def list_all_iff simp del: show_nat.simps)

lemma show_int_nonempty: "show_int i \<noteq> []"
  using show_nat_nonempty by (simp add: show_int_def del: show_nat.simps)

lemma closes_not_numeric: "closes (c # r) \<Longrightarrow> \<not> numeric c"
  by (auto simp: closes_def numeric_def is_digit_def)

lemma numeric_prefix_unique:
  assumes "list_all numeric xs" and "list_all numeric ys"
    and "closes r" and "closes r'" and "xs @ r = ys @ r'"
  shows "xs = ys \<and> r = r'"
  using assms
proof (induction xs arbitrary: ys)
  case Nil
  show ?case
  proof (cases ys)
    case Nil
    with Nil.prems show ?thesis by simp
  next
    case (Cons y ys')
    with Nil.prems have "r = y # ys' @ r'" "numeric y" by simp_all
    with Nil.prems(3) closes_not_numeric show ?thesis by blast
  qed
next
  case (Cons x xs)
  show ?case
  proof (cases ys)
    case Nil
    with Cons.prems have "r' = x # xs @ r" "numeric x" by simp_all
    with Cons.prems(4) closes_not_numeric show ?thesis by blast
  next
    case (Cons y ys')
    with Cons.prems Cons.IH [of ys'] show ?thesis by simp
  qed
qed

lemma hex_values: "list_all (\<lambda>a. hex_value (hex_digit a) = a) [0..<16]"
  by code_simp

lemma hex_value_digit: "a < 16 \<Longrightarrow> hex_value (hex_digit a) = a"
  using hex_values by (simp add: list_all_iff)

lemma control_code: "n < 32 \<Longrightarrow> 16 * hex_value (hex_digit (n div 16)) + hex_value (hex_digit n) = n"
proof -
  assume n: "n < 32"
  then have "n div 16 < 16" by linarith
  then have a: "hex_value (hex_digit (n div 16)) = n div 16" by (rule hex_value_digit)
  have "hex_digit n = hex_digit (n mod 16)" by (simp add: hex_digit_def)
  moreover have "hex_value (hex_digit (n mod 16)) = n mod 16"
    by (rule hex_value_digit) simp
  ultimately have b: "hex_value (hex_digit n) = n mod 16" by simp
  show ?thesis unfolding a b by simp
qed

lemma same_code: "(of_char c :: nat) = of_char d \<Longrightarrow> c = d"
  by simp

lemma unescape_escape: "unescape (escape_char c @ rest) = Some (c, rest)"
proof -
  let ?n = "of_char c :: nat"
  consider "?n = 0x22" | "?n = 0x5C" | "?n = 0x08" | "?n = 0x0C" | "?n = 0x0A" | "?n = 0x0D"
    | "?n = 0x09"
    | "?n < 0x20" "?n \<noteq> 0x08" "?n \<noteq> 0x0C" "?n \<noteq> 0x0A" "?n \<noteq> 0x0D" "?n \<noteq> 0x09"
    | "\<not> ?n < 0x20" "?n \<noteq> 0x22" "?n \<noteq> 0x5C"
    by linarith
  then show ?thesis
  proof cases
    case 1
    with same_code [of c "CHR 0x22"] have "c = CHR 0x22" by simp
    then show ?thesis by (simp add: escape_char_def Let_def)
  next
    case 2
    with same_code [of c "CHR 0x5C"] have "c = CHR 0x5C" by simp
    then show ?thesis by (simp add: escape_char_def Let_def)
  next
    case 3
    with same_code [of c "CHR 0x08"] have "c = CHR 0x08" by simp
    then show ?thesis by (simp add: escape_char_def Let_def)
  next
    case 4
    with same_code [of c "CHR 0x0C"] have "c = CHR 0x0C" by simp
    then show ?thesis by (simp add: escape_char_def Let_def)
  next
    case 5
    with same_code [of c "CHR 0x0A"] have "c = CHR 0x0A" by simp
    then show ?thesis by (simp add: escape_char_def Let_def)
  next
    case 6
    with same_code [of c "CHR 0x0D"] have "c = CHR 0x0D" by simp
    then show ?thesis by (simp add: escape_char_def Let_def)
  next
    case 7
    with same_code [of c "CHR 0x09"] have "c = CHR 0x09" by simp
    then show ?thesis by (simp add: escape_char_def Let_def)
  next
    case 8
    then have "char_of (16 * hex_value (hex_digit (?n div 16)) + hex_value (hex_digit ?n)) = c"
      by (simp add: control_code)
    with 8 show ?thesis by (simp add: escape_char_def Let_def)
  next
    case 9
    then have "c \<noteq> CHR 0x5C" by auto
    with 9 show ?thesis by (simp add: escape_char_def Let_def)
  qed
qed

lemma escape_char_start: "escape_char c \<noteq> [] \<and> hd (escape_char c) \<noteq> CHR 0x22"
  by (auto simp: escape_char_def Let_def)

lemma escaped_unique:
  "concat (map escape_char s) @ CHR 0x22 # r = concat (map escape_char t) @ CHR 0x22 # r'
     \<Longrightarrow> s = t \<and> r = r'"
proof (induction s arbitrary: t)
  case Nil
  show ?case
  proof (cases t)
    case Nil
    with Nil.prems show ?thesis by simp
  next
    case (Cons d t')
    with Nil.prems have "CHR 0x22 # r = escape_char d @ concat (map escape_char t') @ CHR 0x22 # r'"
      by simp
    with escape_char_start [of d] show ?thesis by (cases "escape_char d") simp_all
  qed
next
  case (Cons c s)
  show ?case
  proof (cases t)
    case Nil
    with Cons.prems have "CHR 0x22 # r' = escape_char c @ concat (map escape_char s) @ CHR 0x22 # r"
      by simp
    with escape_char_start [of c] show ?thesis by (cases "escape_char c") simp_all
  next
    case (Cons d t')
    with Cons.prems have
      "unescape (escape_char c @ concat (map escape_char s) @ CHR 0x22 # r)
         = unescape (escape_char d @ concat (map escape_char t') @ CHR 0x22 # r')"
      by simp
    then have "c = d"
      and "concat (map escape_char s) @ CHR 0x22 # r = concat (map escape_char t') @ CHR 0x22 # r'"
      by (simp_all only: unescape_escape option.inject prod.inject)
    with Cons.IH [of t'] Cons show ?thesis by simp
  qed
qed

lemma quote_unique: "quote s @ r = quote t @ r' \<Longrightarrow> s = t \<and> r = r'"
  using escaped_unique [of s r t r'] by (simp add: quote_def)

lemma join_Cons: "join sep (s # ss) = s @ (if ss = [] then [] else sep @ join sep ss)"
  by (cases ss) simp_all

lemma stringify_json: "json_value v \<Longrightarrow> stringify v = Some (text_of v)"
  by (cases v) (simp_all add: text_of_def)

lemma text_of_array:
  assumes "list_all json_value xs"
  shows "text_of (JArr xs) = CHR ''['' # join '','' (map text_of xs) @ '']''"
proof -
  have m: "map (\<lambda>x. case stringify x of None \<Rightarrow> ''null'' | Some t \<Rightarrow> t) xs = map text_of xs"
    using assms by (induction xs) (simp_all add: stringify_json)
  show ?thesis unfolding text_of_def [of "JArr xs"] stringify.simps m by simp
qed

lemma text_of_object:
  assumes "list_all (\<lambda>p. json_value (snd p)) fs"
  shows "text_of (JObj fs) = CHR ''{'' # join '','' (map entry_text fs) @ ''}''"
proof -
  have m: "concat (map (\<lambda>p. case stringify (snd p) of None \<Rightarrow> []
                              | Some t \<Rightarrow> [quote (fst p) @ '':'' @ t]) fs) = map entry_text fs"
    using assms by (induction fs) (simp_all add: stringify_json entry_text_def)
  show ?thesis unfolding text_of_def [of "JObj fs"] stringify.simps m by simp
qed

lemma numeric_kind: "numeric c \<Longrightarrow> kind_of_char c = 2"
  by (auto simp: kind_of_char_def numeric_def is_digit_def)

lemma text_of_start:
  assumes "json_value v"
  shows "text_of v \<noteq> [] \<and> kind_of_char (hd (text_of v)) = kind v"
proof (cases v)
  case (JNum n)
  have "numeric (hd (show_int n))"
    using show_int_numeric [of n] show_int_nonempty [of n] by (cases "show_int n") simp_all
  with JNum show ?thesis
    by (simp add: text_of_def show_int_nonempty numeric_kind del: show_nat.simps)
next
  case (JArr xs)
  with assms show ?thesis by (simp add: text_of_array kind_of_char_def numeric_def is_digit_def)
next
  case (JObj fs)
  with assms show ?thesis by (simp add: text_of_object kind_of_char_def numeric_def is_digit_def)
qed (use assms in \<open>auto simp: text_of_def quote_def kind_of_char_def numeric_def is_digit_def\<close>)

lemma text_of_not_closing:
  assumes "json_value v"
  shows "\<not> closes [hd (text_of v)]"
proof
  assume c: "closes [hd (text_of v)]"
  then have "kind_of_char (hd (text_of v)) = 6"
    by (auto simp: closes_def kind_of_char_def numeric_def is_digit_def)
  with text_of_start [OF assms] have "kind v = 6" by simp
  then show False by (cases v) simp_all
qed

lemma joined_unique:
  assumes elem: "\<And>x y R R'. x \<in> set xs \<Longrightarrow> Q y \<Longrightarrow> closes R \<Longrightarrow> closes R'
                   \<Longrightarrow> e x @ R = e y @ R' \<Longrightarrow> x = y \<and> R = R'"
    and start: "\<And>y. Q y \<Longrightarrow> e y \<noteq> [] \<and> \<not> closes [hd (e y)]"
    and xs: "\<forall>x \<in> set xs. Q x" and ys: "\<forall>y \<in> set ys. Q y"
    and cl: "cl = CHR '']'' \<or> cl = CHR ''}''"
    and eq: "join '','' (map e xs) @ cl # r = join '','' (map e ys) @ cl # r'"
  shows "xs = ys \<and> r = r'"
  using elem xs ys eq
proof (induction xs arbitrary: ys)
  case Nil
  show ?case
  proof (cases ys)
    case Nil
    with Nil.prems show ?thesis by simp
  next
    case (Cons y ys')
    with Nil.prems(3) have "Q y" by simp
    from start [OF this] obtain c cs where ey: "e y = c # cs" "\<not> closes [c]"
      by (cases "e y") auto
    with Nil.prems(4) Cons have "cl = c" by (simp add: join_Cons)
    with ey(2) cl show ?thesis by (auto simp: closes_def)
  qed
next
  case (Cons x xs')
  show ?case
  proof (cases ys)
    case Nil
    from Cons.prems(2) have "Q x" by simp
    from start [OF this] obtain c cs where ex: "e x = c # cs" "\<not> closes [c]"
      by (cases "e x") auto
    with Cons.prems(4) Nil have "cl = c" by (simp add: join_Cons)
    with ex(2) cl show ?thesis by (auto simp: closes_def)
  next
    case ys: (Cons y ys')
    let ?R = "(if xs' = [] then [] else '','' @ join '','' (map e xs')) @ cl # r"
    let ?R' = "(if ys' = [] then [] else '','' @ join '','' (map e ys')) @ cl # r'"
    from Cons.prems(3) ys have "Q y" by simp
    have cR: "closes ?R" "closes ?R'" using cl by (auto simp: closes_def)
    from Cons.prems(4) ys have "e x @ ?R = e y @ ?R'" by (simp add: join_Cons)
    from Cons.prems(1) [OF _ \<open>Q y\<close> cR this] have xy: "x = y" and R: "?R = ?R'" by simp_all
    show ?thesis
    proof (cases "xs' = []")
      case True
      show ?thesis
      proof (cases "ys' = []")
        case True
        with \<open>xs' = []\<close> R xy ys show ?thesis by simp
      next
        case False
        with True R cl show ?thesis by auto
      qed
    next
      case False
      show ?thesis
      proof (cases "ys' = []")
        case True
        with False R cl show ?thesis by auto
      next
        case ne: False
        with False R have rest: "join '','' (map e xs') @ cl # r = join '','' (map e ys') @ cl # r'"
          by simp
        have qx: "\<forall>x \<in> set xs'. Q x" and qy: "\<forall>y \<in> set ys'. Q y"
          using Cons.prems(2,3) ys by simp_all
        have elem': "x' = y' \<and> R1 = R2"
          if "x' \<in> set xs'" "Q y'" "closes R1" "closes R2" "e x' @ R1 = e y' @ R2"
          for x' y' R1 R2
          using Cons.prems(1) [of x' y' R1 R2] that by simp
        have "xs' = ys' \<and> r = r'"
          by (rule Cons.IH [of ys', OF elem' qx qy rest])
        with xy ys show ?thesis by simp
      qed
    qed
  qed
qed

lemma same_kind:
  assumes "json_value a" and "json_value b" and "text_of a @ r = text_of b @ r'"
  shows "kind a = kind b"
proof -
  from text_of_start [OF assms(1)] text_of_start [OF assms(2)] assms(3)
  have "hd (text_of a) = hd (text_of b)"
    by (metis hd_append2)
  with text_of_start [OF assms(1)] text_of_start [OF assms(2)] show ?thesis by simp
qed

lemma entry_text_start: "entry_text p \<noteq> [] \<and> \<not> closes [hd (entry_text p)]"
  by (simp add: entry_text_def quote_def closes_def)

lemma text_unique:
  "json_value a \<Longrightarrow> json_value b \<Longrightarrow> closes r \<Longrightarrow> closes r'
     \<Longrightarrow> text_of a @ r = text_of b @ r' \<Longrightarrow> a = b \<and> r = r'"
proof (induction a arbitrary: b r r')
  case JUndefined
  then show ?case by simp
next
  case JNull
  from same_kind [OF JNull.prems(1,2,5)] JNull.prems show ?case
    by (cases b) (simp_all add: text_of_def)
next
  case (JBool x)
  from same_kind [OF JBool.prems(1,2,5)] JBool.prems show ?case
    by (cases b) (auto simp: text_of_def split: if_splits)
next
  case (JNum n)
  from same_kind [OF JNum.prems(1,2,5)] obtain m where b: "b = JNum m"
    by (cases b) simp_all
  with JNum.prems have "show_int n @ r = show_int m @ r'" by (simp add: text_of_def)
  from numeric_prefix_unique [OF show_int_numeric show_int_numeric JNum.prems(3,4) this]
  have "show_int n = show_int m" and "r = r'" by simp_all
  with b show ?case by (simp add: show_int_inj)
next
  case JNaN
  then show ?case by simp
next
  case (JStr s)
  from same_kind [OF JStr.prems(1,2,5)] obtain t where b: "b = JStr t"
    by (cases b) simp_all
  with JStr.prems have "quote s @ r = quote t @ r'" by (simp add: text_of_def)
  from quote_unique [OF this] b show ?case by simp
next
  case (JArr xs)
  from same_kind [OF JArr.prems(1,2,5)] obtain ys where b: "b = JArr ys"
    by (cases b) simp_all
  from JArr.prems(1) have xs: "list_all json_value xs" by simp
  from JArr.prems(2) b have ys: "list_all json_value ys" by simp
  from JArr.prems(5) b have eq:
    "join '','' (map text_of xs) @ CHR '']'' # r = join '','' (map text_of ys) @ CHR '']'' # r'"
    by (simp add: text_of_array xs ys)
  have elem: "x = y \<and> R = R'"
    if "x \<in> set xs" "json_value y" "closes R" "closes R'" "text_of x @ R = text_of y @ R'"
    for x y R R'
  proof -
    from that(1) xs have "json_value x" by (simp add: list_all_iff)
    from JArr.IH [OF that(1) this that(2,3,4,5)] show ?thesis .
  qed
  have start: "text_of y \<noteq> [] \<and> \<not> closes [hd (text_of y)]" if "json_value y" for y
    using text_of_start [OF that] text_of_not_closing [OF that] by simp
  have "xs = ys \<and> r = r'"
    by (rule joined_unique [where e = text_of and Q = json_value and cl = "CHR '']''", OF elem start _ _ _ eq])
       (use xs ys in \<open>simp_all add: list_all_iff\<close>)
  with b show ?case by simp
next
  case (JObj fs)
  from same_kind [OF JObj.prems(1,2,5)] obtain gs where b: "b = JObj gs"
    by (cases b) simp_all
  from JObj.prems(1) have fs: "list_all (\<lambda>p. json_value (snd p)) fs" by simp
  from JObj.prems(2) b have gs: "list_all (\<lambda>p. json_value (snd p)) gs" by simp
  from JObj.prems(5) b have eq:
    "join '','' (map entry_text fs) @ CHR ''}'' # r = join '','' (map entry_text gs) @ CHR ''}'' # r'"
    by (simp add: text_of_object fs gs)
  have elem: "p = q \<and> R = R'"
    if "p \<in> set fs" "json_value (snd q)" "closes R" "closes R'" "entry_text p @ R = entry_text q @ R'"
    for p q R R'
  proof -
    from that(1) fs have v: "json_value (snd p)" by (simp add: list_all_iff)
    from that(5) have "quote (fst p) @ (CHR '':'' # text_of (snd p) @ R)
                     = quote (fst q) @ (CHR '':'' # text_of (snd q) @ R')"
      by (simp add: entry_text_def)
    from quote_unique [OF this] have k: "fst p = fst q"
      and t: "text_of (snd p) @ R = text_of (snd q) @ R'"
      by simp_all
    have "snd p \<in> Basic_BNFs.snds p" by (cases p) simp
    from JObj.IH [OF that(1) this v that(2,3,4) t] have "snd p = snd q" "R = R'" by simp_all
    with k show ?thesis by (simp add: prod_eq_iff)
  qed
  have "fs = gs \<and> r = r'"
    by (rule joined_unique [where e = entry_text and Q = "\<lambda>p. json_value (snd p)" and cl = "CHR ''}''",
          OF elem entry_text_start _ _ _ eq])
       (use fs gs in \<open>simp_all add: list_all_iff\<close>)
  with b show ?case by simp
next
  case (JFun fs)
  then show ?case by simp
qed

lemma serialization_injective:
  assumes "json_value a" and "json_value b"
  shows "serially_equal a b \<longleftrightarrow> a = b"
proof
  assume "serially_equal a b"
  then have "text_of a @ [] = text_of b @ []" by (simp add: serially_equal_def text_of_def)
  from text_unique [OF assms _ _ this] show "a = b" by (simp add: closes_def)
next
  assume "a = b"
  then show "serially_equal a b" by (simp add: serially_equal_def)
qed

text \<open>
  C8: on the sequence of recorded trial outputs, \<^verbatim>\<open>deterministic_output\<close> passes
  trivially when the sequence has fewer than 2 elements; with 2 or more elements it passes
  iff every element is equal to the first one, equality being that of the canonical
  serializations (deep, and sensitive to the order of object properties); on outputs that
  are JSON values this is equality of the values themselves.
\<close>

theorem deterministic_output_spec:
  assumes "js_get ctx ''outputs'' = Inr (JArr results)"
  shows "(length results < 2 \<longrightarrow>
            call_handler ''deterministic_output'' ctx assertion status = Inr (JBool True))
       \<and> (2 \<le> length results \<longrightarrow>
            call_handler ''deterministic_output'' ctx assertion status
              = Inr (JBool (\<forall>r \<in> set results. serially_equal r (hd results))))
       \<and> (2 \<le> length results \<and> list_all json_value results \<longrightarrow>
            call_handler ''deterministic_output'' ctx assertion status
              = Inr (JBool (\<forall>r \<in> set results. r = hd results)))"
proof -
  have handler: "call_handler ''deterministic_output'' ctx assertion status
      = Inr (JBool (length results < 2 \<or> (\<forall>r \<in> set results. serially_equal r (hd results))))"
    using assms
    by (simp add: call_handler_def assertionHandlers_def boolean_def checkDeterministicOutput_def
          deterministic_iff)
  have "(\<forall>r \<in> set results. serially_equal r (hd results)) \<longleftrightarrow> (\<forall>r \<in> set results. r = hd results)"
    if "2 \<le> length results" "list_all json_value results"
  proof -
    from that(1) have "hd results \<in> set results" by (cases results) simp_all
    with that(2) have "json_value (hd results)" by (simp add: list_all_iff)
    with that(2) show ?thesis by (simp add: list_all_iff serialization_injective)
  qed
  with handler show ?thesis by auto
qed

theorem deterministic_output_witness:
  "js_get (JObj [(''outputs'', JArr [JObj [(''a'', JNum 1)]])]) ''outputs''
     = Inr (JArr [JObj [(''a'', JNum 1)]])
   \<and> call_handler ''deterministic_output'' (JObj [(''outputs'', JArr [JObj [(''a'', JNum 1)]])])
        JNull JNull = Inr (JBool True)
   \<and> js_get (JObj [(''outputs'', JArr [JObj [(''a'', JNum 1)], JObj [(''a'', JNum 1)], JObj [(''a'', JNum 2)]])])
        ''outputs''
     = Inr (JArr [JObj [(''a'', JNum 1)], JObj [(''a'', JNum 1)], JObj [(''a'', JNum 2)]])
   \<and> list_all json_value [JObj [(''a'', JNum 1)], JObj [(''a'', JNum 1)], JObj [(''a'', JNum 2)]]
   \<and> call_handler ''deterministic_output''
        (JObj [(''outputs'', JArr [JObj [(''a'', JNum 1)], JObj [(''a'', JNum 1)], JObj [(''a'', JNum 2)]])])
        JNull JNull = Inr (JBool False)"
proof -
  have one: "js_get (JObj [(''outputs'', JArr [JObj [(''a'', JNum 1)]])]) ''outputs''
     = Inr (JArr [JObj [(''a'', JNum 1)]])" by simp
  have three: "js_get (JObj [(''outputs'', JArr [JObj [(''a'', JNum 1)], JObj [(''a'', JNum 1)], JObj [(''a'', JNum 2)]])])
        ''outputs''
     = Inr (JArr [JObj [(''a'', JNum 1)], JObj [(''a'', JNum 1)], JObj [(''a'', JNum 2)]])" by simp
  show ?thesis
    using one three deterministic_output_spec [OF one, of JNull JNull]
      deterministic_output_spec [OF three, of JNull JNull]
    by (simp add: serially_equal_def show_int_def)
qed

section \<open>The validator of the output fields\<close>

lemma is_object_cases: "is_object v \<longleftrightarrow> (\<exists>xs. v = JArr xs) \<or> (\<exists>fs. v = JObj fs)"
  by (cases v) (simp_all add: is_object_def)

lemma js_in_object: "is_object v \<Longrightarrow> js_in k v = Inr (has_property v k)"
  by (auto simp: is_object_cases has_property_def)

lemma filter_missing_eq:
  "is_object v \<Longrightarrow>
     filter_missing v names = Inr (filter (\<lambda>name. \<not> has_property v (to_string name)) names)"
  by (induction names) (simp_all add: js_in_object)

lemma declared_names_eq:
  assumes "outputs_readable meta"
  shows "and_then (js_get meta ''outputs'') (\<lambda>outputs.
         and_then (as_array_for ''map'' (js_or outputs (JArr []))) (\<lambda>os.
           map_each (\<lambda>out. js_get out ''name'') os)) = Inr (declared_output_names meta)"
proof -
  from assms obtain v where v: "js_get meta ''outputs'' = Inr v"
    by (auto simp: outputs_readable_def split: sum.splits)
  then have opt: "js_get_opt meta ''outputs'' = v" by (simp add: js_get_opt_def)
  show ?thesis
  proof (cases v)
    case (JArr os)
    with assms v have "list_all (\<lambda>out. \<not> nullish out) os" by (simp add: outputs_readable_def)
    then show ?thesis using v JArr opt
      by (simp add: js_or_def as_array_for_def map_each_get declared_output_names_def)
  qed (use assms v opt in \<open>simp_all add: outputs_readable_def js_or_def as_array_for_def declared_output_names_def\<close>)
qed

text \<open>
  C7, as the specification states it, fails: the validator tests a declared name with the
  \<^verbatim>\<open>in\<close> operator, which also finds inherited properties.  With the declared output
  \<^verbatim>\<open>constructor\<close> and the actual output \<^verbatim>\<open>{}\<close> it returns \<^verbatim>\<open>true\<close>, although the
  name is absent from the output object.
\<close>

theorem output_fields_inherited_counterexample:
  "checkOutputFieldsMatchContract (JObj [])
      (JObj [(''outputs'', JArr [JObj [(''name'', JStr ''constructor''), (''type'', JStr ''string'')]])])
   \<noteq> Inr (fields_result own_property (JObj [])
      (JObj [(''outputs'', JArr [JObj [(''name'', JStr ''constructor''), (''type'', JStr ''string'')]])]))"
  by (simp add: checkOutputFieldsMatchContract_def fields_result_def is_object_def resolved_output_def
        has_property_def own_property_def declared_output_names_def js_get_opt_def
        object_prototype_keys_def missing_fields_failure_def js_or_def as_array_for_def Let_def)

text \<open>
  C7 (amended): \<^verbatim>\<open>output_fields_match_contract\<close> returns the \<^verbatim>\<open>no_output\<close> failure
  with the output when the top-level output is missing or not an object; it resolves direct
  versus kernel mode by \<^verbatim>\<open>'output' in output\<close> and returns the
  \<^verbatim>\<open>invalid_output_shape\<close> failure with the top-level output when the resolved output is
  missing or not an object; it returns the \<^verbatim>\<open>missing_fields\<close> failure with the missing
  names, the resolved output and the declared names when some declared name is not a
  property of the resolved output, own or inherited; otherwise it returns \<^verbatim>\<open>true\<close>.
  This holds for a declaration whose \<^verbatim>\<open>outputs\<close> is absent or a sequence without
  \<^verbatim>\<open>null\<close> elements.  The witness is the example of the specification: with the declared
  output \<^verbatim>\<open>balance\<close>, \<^verbatim>\<open>{balance: 10}\<close> passes and \<^verbatim>\<open>{output: {}}\<close> fails with
  reason \<^verbatim>\<open>missing_fields\<close> and missing fields \<^verbatim>\<open>["balance"]\<close>.
\<close>

theorem output_fields_amended:
  assumes "outputs_readable meta"
  shows "checkOutputFieldsMatchContract out meta = Inr (fields_result has_property out meta)
       \<and> (\<forall>ctx. output ctx = out \<and> resolverMeta ctx = meta \<longrightarrow>
             call_handler ''output_fields_match_contract'' (context_value ctx) assertion status
               = Inr (fields_result has_property out meta))"
proof -
  have direct: "checkOutputFieldsMatchContract out meta = Inr (fields_result has_property out meta)"
  proof (cases "is_object out")
  case False
  then show ?thesis
    by (auto simp: checkOutputFieldsMatchContract_def fields_result_def is_object_def)
next
  case True
  then have top: "truthy out" "typeof out = ''object''" "\<not> nullish out"
    by (auto simp: is_object_def truthy_not_nullish)
  have wrapped: "js_in ''output'' out = Inr (has_property out ''output'')"
    using True by (rule js_in_object)
  have actual: "(if has_property out ''output'' then js_get out ''output'' else Inr out)
                  = Inr (resolved_output out)"
    using top by (simp add: resolved_output_def js_get_defined)
  show ?thesis
  proof (cases "is_object (resolved_output out)")
    case False
    then show ?thesis using top True wrapped actual
      by (auto simp: checkOutputFieldsMatchContract_def fields_result_def is_object_def)
  next
    case inner: True
    have names: "and_then (js_get meta ''outputs'') (\<lambda>outputs.
         and_then (as_array_for ''map'' (js_or outputs (JArr []))) (\<lambda>os.
         and_then (map_each (\<lambda>out. js_get out ''name'') os) k)) = k (declared_output_names meta)" for k
      using declared_names_eq [OF assms]
      by (auto simp: and_then_def split: sum.splits)
    show ?thesis using top True wrapped actual inner
      apply (simp add: checkOutputFieldsMatchContract_def fields_result_def names filter_missing_eq Let_def)
      apply (simp add: is_object_def)
      done
  qed
qed
  have "call_handler ''output_fields_match_contract'' (context_value ctx) assertion status
          = checkOutputFieldsMatchContract (output ctx) (resolverMeta ctx)" for ctx
    by (simp add: call_handler_def assertionHandlers_def context_value_def)
  with direct show ?thesis by simp
qed

theorem output_fields_witness:
  "outputs_readable (JObj [(''outputs'', JArr [JObj [(''name'', JStr ''balance'')]])])
   \<and> checkOutputFieldsMatchContract (JObj [(''balance'', JNum 10)])
        (JObj [(''outputs'', JArr [JObj [(''name'', JStr ''balance'')]])]) = Inr (JBool True)
   \<and> checkOutputFieldsMatchContract (JObj [(''output'', JObj [])])
        (JObj [(''outputs'', JArr [JObj [(''name'', JStr ''balance'')]])])
      = Inr (JObj [(''passed'', JBool False),
                   (''details'', JObj [(''reason'', JStr ''missing_fields''),
                                      (''missingFields'', JArr [JStr ''balance'']),
                                      (''actualOutput'', JObj []),
                                      (''expectedFields'', JArr [JStr ''balance''])])])"
proof -
  have h: "outputs_readable (JObj [(''outputs'', JArr [JObj [(''name'', JStr ''balance'')]])])"
    by (simp add: outputs_readable_def)
  show ?thesis
    using h output_fields_amended [OF h, of "JObj [(''balance'', JNum 10)]"]
      output_fields_amended [OF h, of "JObj [(''output'', JObj [])]"]
    by (simp add: fields_result_def is_object_def resolved_output_def has_property_def
          declared_output_names_def js_get_opt_def object_prototype_keys_def
          missing_fields_failure_def Let_def)
qed

section \<open>Properties of the observation harness\<close>

lemma find_first_get:
  "find_first (\<lambda>f. and_then (js_get f k) (\<lambda>c. Inr (P c))) fs = Inr r
     \<Longrightarrow> r = find (\<lambda>f. P (js_get_opt f k)) fs"
proof (induction fs)
  case Nil
  then show ?case by simp
next
  case (Cons f fs)
  show ?case
  proof (cases "nullish f")
    case True
    with Cons.prems show ?thesis by (simp add: js_get_nullish)
  next
    case False
    with Cons show ?thesis by (auto simp: js_get_defined split: if_splits)
  qed
qed

lemma as_array_for_Inr: "as_array_for m v = Inr xs \<Longrightarrow> v = JArr xs"
  by (cases v) (auto simp: as_array_for_def and_then_def split: sum.splits jsval.splits)

lemma strict_eq_truthy: "strict_eq c code \<Longrightarrow> truthy code \<Longrightarrow> truthy c"
  by (cases c; cases code) simp_all

lemma find_code_truthy:
  assumes "find (\<lambda>f. strict_eq (js_get_opt f ''code'') code) fs = Some d" and "truthy code"
  shows "truthy d"
proof -
  from assms(1) have "strict_eq (js_get_opt d ''code'') code"
    by (auto simp: find_Some_iff)
  from this assms(2) have "truthy (js_get_opt d ''code'')" by (rule strict_eq_truthy)
  then show ?thesis using falsy_has_no_code [of d] by (cases "truthy d") simp_all
qed

lemma record_throw_Inr:
  assumes "record_throw ctx meta err = Inr ctx'"
  shows "ctx' = ctx\<lparr>threw := True, error := err, retryCount := (if truthy (js_get_opt err ''code'')
      then case matching_failure meta (js_get_opt err ''code'') of
             Some d \<Rightarrow> js_get_opt d ''retries''
           | None \<Rightarrow> retryCount ctx
      else retryCount ctx)\<rparr> \<and> \<not> nullish err"
proof -
  have nn: "\<not> nullish err"
    using assms by (cases "nullish err") (simp_all add: record_throw_def js_get_nullish)
  then have code: "js_get err ''code'' = Inr (js_get_opt err ''code'')" by (rule js_get_defined)
  show ?thesis
  proof (cases "truthy (js_get_opt err ''code'')")
    case False
    with assms code nn show ?thesis by (auto simp: record_throw_def)
  next
    case True
    from assms code True obtain declared where d: "js_get meta ''failures'' = Inr declared"
      by (cases "js_get meta ''failures''") (simp_all add: record_throw_def)
    then have opt: "js_get_opt meta ''failures'' = declared" by (simp add: js_get_opt_def)
    show ?thesis
    proof (cases "nullish declared")
      case True
      then have "matching_failure meta (js_get_opt err ''code'') = None"
        using opt by (cases declared) (simp_all add: matching_failure_def)
      with assms code \<open>truthy (js_get_opt err ''code'')\<close> d True nn show ?thesis
        by (auto simp: record_throw_def)
    next
      case False
      with assms code True d obtain fs where fs: "as_array_for ''find'' declared = Inr fs"
        by (cases "as_array_for ''find'' declared") (simp_all add: record_throw_def)
      then have arr: "declared = JArr fs" by (rule as_array_for_Inr)
      from assms code True d False fs obtain decl where
        decl: "find_first (\<lambda>f. and_then (js_get f ''code'') (\<lambda>c. Inr (strict_eq c (js_get_opt err ''code'')))) fs = Inr decl"
        by (cases "find_first (\<lambda>f. and_then (js_get f ''code'') (\<lambda>c. Inr (strict_eq c (js_get_opt err ''code'')))) fs")
           (simp_all add: record_throw_def)
      then have found: "decl = find (\<lambda>f. strict_eq (js_get_opt f ''code'') (js_get_opt err ''code'')) fs"
        by (rule find_first_get)
      then have mf: "matching_failure meta (js_get_opt err ''code'') = decl"
        using opt arr by (simp add: matching_failure_def)
      show ?thesis
      proof (cases decl)
        case None
        with assms code True d False fs decl mf nn show ?thesis
          by (auto simp: record_throw_def)
      next
        case (Some x)
        then have "truthy x" using found True find_code_truthy by metis
        with Some assms code True d False fs decl mf nn show ?thesis
          by (auto simp: record_throw_def js_get_defined truthy_not_nullish)
      qed
    qed
  qed
qed

lemma trials_replay:
  "trials n f b meta input ctx calls s = (Returned (ctx', calls'), s')
     \<Longrightarrow> \<exists>new. calls' = calls @ new \<and> replay f b new s = Some s' \<and> (\<forall>c \<in> set new. fst c = input)"
proof (induction n arbitrary: ctx calls s)
  case 0
  then show ?case by simp
next
  case (Suc n)
  obtain result s1 where call: "call_resolver f b input s = (result, s1)"
    by (cases "call_resolver f b input s")
  show ?case
  proof (cases result)
    case (Returns v)
    with Suc.prems call have
      "trials n f b meta input (ctx\<lparr>output := v, outputs := outputs ctx @ [v]\<rparr>)
         (calls @ [(input, Returns v)]) s1 = (Returned (ctx', calls'), s')"
      by simp
    from Suc.IH [OF this] obtain new where
      new: "calls' = (calls @ [(input, Returns v)]) @ new" "replay f b new s1 = Some s'"
           "\<forall>c \<in> set new. fst c = input"
      by blast
    then have "calls' = calls @ ((input, Returns v) # new)
               \<and> replay f b ((input, Returns v) # new) s = Some s'
               \<and> (\<forall>c \<in> set ((input, Returns v) # new). fst c = input)"
      using call Returns by simp
    then show ?thesis by blast
  next
    case (Throws err)
    with Suc.prems call have "calls' = calls @ [(input, Throws err)]" "s' = s1"
      by (auto split: sum.splits)
    then have "calls' = calls @ [(input, Throws err)]
               \<and> replay f b [(input, Throws err)] s = Some s'
               \<and> (\<forall>c \<in> set [(input, Throws err)]. fst c = input)"
      using call Throws by simp
    then show ?thesis by blast
  next
    case NeverSettles
    with Suc.prems call show ?thesis by simp
  qed
qed

lemma trials_returned:
  "trials n f b meta input ctx calls s = (Returned (ctx', calls'), s')
     \<Longrightarrow> \<exists>vs. outputs ctx' = outputs ctx @ vs
            \<and> output ctx' = (if vs = [] then output ctx else last vs)
            \<and> ((calls' = calls @ successes input vs \<and> length vs = n
                 \<and> threw ctx' = threw ctx \<and> error ctx' = error ctx
                 \<and> retryCount ctx' = retryCount ctx)
               \<or> (\<exists>err. calls' = calls @ successes input vs @ [(input, Throws err)]
                    \<and> length vs < n \<and> thrown_state (retryCount ctx) meta err ctx'))"
proof (induction n arbitrary: ctx calls s)
  case 0
  then have "outputs ctx' = outputs ctx @ [] \<and> output ctx' = (if [] = ([]::jsval list) then output ctx else last [])
     \<and> ((calls' = calls @ successes input [] \<and> length ([]::jsval list) = 0
                 \<and> threw ctx' = threw ctx \<and> error ctx' = error ctx
                 \<and> retryCount ctx' = retryCount ctx))"
    by (simp add: successes_def)
  then show ?case by blast
next
  case (Suc n)
  obtain result s1 where call: "call_resolver f b input s = (result, s1)"
    by (cases "call_resolver f b input s")
  show ?case
  proof (cases result)
    case (Returns v)
    let ?ctx1 = "ctx\<lparr>output := v, outputs := outputs ctx @ [v]\<rparr>"
    from Suc.prems call Returns have
      "trials n f b meta input ?ctx1 (calls @ [(input, Returns v)]) s1 = (Returned (ctx', calls'), s')"
      by simp
    from Suc.IH [OF this] obtain vs where
      o: "outputs ctx' = outputs ?ctx1 @ vs"
      and l: "output ctx' = (if vs = [] then output ?ctx1 else last vs)"
      and d: "(calls' = (calls @ [(input, Returns v)]) @ successes input vs \<and> length vs = n
                 \<and> threw ctx' = threw ?ctx1 \<and> error ctx' = error ?ctx1
                 \<and> retryCount ctx' = retryCount ?ctx1)
               \<or> (\<exists>err. calls' = (calls @ [(input, Returns v)]) @ successes input vs @ [(input, Throws err)]
                    \<and> length vs < n \<and> thrown_state (retryCount ?ctx1) meta err ctx')"
      by blast
    have "outputs ctx' = outputs ctx @ (v # vs)" using o by simp
    moreover have "output ctx' = (if v # vs = [] then output ctx else last (v # vs))"
      using l by simp
    moreover have "(calls' = calls @ successes input (v # vs) \<and> length (v # vs) = Suc n
                 \<and> threw ctx' = threw ctx \<and> error ctx' = error ctx
                 \<and> retryCount ctx' = retryCount ctx)
               \<or> (\<exists>err. calls' = calls @ successes input (v # vs) @ [(input, Throws err)]
                    \<and> length (v # vs) < Suc n \<and> thrown_state (retryCount ctx) meta err ctx')"
      using d by (auto simp: successes_def thrown_state_def)
    ultimately show ?thesis by blast
  next
    case (Throws err)
    with Suc.prems call obtain c where c: "record_throw ctx meta err = Inr c" "ctx' = c"
      "calls' = calls @ [(input, Throws err)]"
      by (auto split: sum.splits)
    from record_throw_Inr [OF c(1)] c(2) have t: "thrown_state (retryCount ctx) meta err ctx'"
      and same: "outputs ctx' = outputs ctx" "output ctx' = output ctx"
      by (auto simp: thrown_state_def)
    have "outputs ctx' = outputs ctx @ [] \<and> output ctx' = (if [] = ([]::jsval list) then output ctx else last [])
       \<and> (\<exists>err. calls' = calls @ successes input [] @ [(input, Throws err)]
                    \<and> length ([]::jsval list) < Suc n \<and> thrown_state (retryCount ctx) meta err ctx')"
      using t same c(3) by (auto simp: successes_def)
    then show ?thesis by blast
  next
    case NeverSettles
    with Suc.prems call show ?thesis by simp
  qed
qed

lemma strict_eq_string: "strict_eq v (JStr t) \<longleftrightarrow> v = JStr t"
  by (cases v) auto

lemma runs_for_limit: "runs_for test_id = trial_limit test_id"
  by (simp add: runs_for_def trial_limit_def strict_eq_string)

lemma resolver_input_eq:
  "resolver_input meta fixture =
     (if uses_example fixture \<and> \<not> truthy (js_get_opt meta ''exampleAction'') then Inl ConfigError
      else Inr (constructed_input meta fixture))"
  by (simp add: resolver_input_def uses_example_def constructed_input_def js_or_def Let_def)

lemma returned_values_successes [simp]:
  "returned_values (successes input vs) = vs"
  "returned_values (successes input vs @ [(input, Throws err)]) = vs"
  by (induction vs) (simp_all add: returned_values_def successes_def List.map_filter_simps)

lemma harness_returned:
  assumes "invokeResolverWithObservation f b meta testSpec fixture s = (Returned (ctx, calls), s')"
  shows "\<exists>test_id vs.
           js_get testSpec ''test_id'' = Inr test_id
         \<and> resolver_input meta fixture = Inr (constructed_input meta fixture)
         \<and> replay f b calls s = Some s'
         \<and> outputs ctx = vs
         \<and> output ctx = (if vs = [] then JNull else last vs)
         \<and> ((calls = successes (constructed_input meta fixture) vs \<and> length vs = trial_limit test_id
              \<and> \<not> threw ctx \<and> error ctx = JNull \<and> retryCount ctx = JNum 0)
            \<or> (\<exists>err. calls = successes (constructed_input meta fixture) vs
                           @ [(constructed_input meta fixture, Throws err)]
                 \<and> length vs < trial_limit test_id \<and> thrown_state (JNum 0) meta err ctx))"
proof -
  let ?input = "constructed_input meta fixture"
  let ?ctx0 = "\<lparr>resolver = f, resolverMeta = meta, output = JNull, outputs = [],
                  error = JNull, threw = False, retryCount = JNum 0\<rparr>"
  from assms have inp: "resolver_input meta fixture = Inr ?input"
    by (auto simp: invokeResolverWithObservation_def resolver_input_eq split: if_splits)
  with assms obtain test_id where tid: "js_get testSpec ''test_id'' = Inr test_id"
    by (cases "js_get testSpec ''test_id''") (simp_all add: invokeResolverWithObservation_def)
  with assms inp have run:
    "trials (trial_limit test_id) f b meta ?input ?ctx0 [] s = (Returned (ctx, calls), s')"
    by (simp add: invokeResolverWithObservation_def runs_for_limit)
  from trials_replay [OF run] have rp: "replay f b calls s = Some s'" by simp
  from trials_returned [OF run] obtain vs where
    "outputs ctx = vs" "output ctx = (if vs = [] then JNull else last vs)"
    "(calls = successes ?input vs \<and> length vs = trial_limit test_id
        \<and> \<not> threw ctx \<and> error ctx = JNull \<and> retryCount ctx = JNum 0)
     \<or> (\<exists>err. calls = successes ?input vs @ [(?input, Throws err)]
           \<and> length vs < trial_limit test_id \<and> thrown_state (JNum 0) meta err ctx)"
    by auto
  with tid inp rp show ?thesis by blast
qed

lemma js_get_error: "js_get v k = Inl e \<Longrightarrow> e = TypeError"
  by (cases v) simp_all

lemma js_get_not_config: "js_get v k \<noteq> Inl ConfigError"
  using js_get_error by fastforce

lemma as_array_for_not_config: "as_array_for m v \<noteq> Inl ConfigError"
  by (cases v) (auto simp: as_array_for_def and_then_Inl_iff js_get_not_config split: jsval.splits)

lemma find_first_get_not_config:
  "find_first (\<lambda>f. and_then (js_get f k) (\<lambda>c. Inr (P c))) fs \<noteq> Inl ConfigError"
  by (induction fs) (auto simp: and_then_Inl_iff js_get_not_config)

lemma record_throw_not_config: "record_throw ctx meta err \<noteq> Inl ConfigError"
  by (auto simp: record_throw_def Let_def and_then_Inl_iff js_get_not_config
        as_array_for_not_config find_first_get_not_config split: option.splits)

lemma trials_not_config:
  "trials n f b meta input ctx calls s \<noteq> (Raised ConfigError, s')"
proof (induction n arbitrary: ctx calls s)
  case 0
  show ?case by simp
next
  case (Suc n)
  obtain result s1 where call: "call_resolver f b input s = (result, s1)"
    by (cases "call_resolver f b input s")
  show ?case
  proof (cases result)
    case (Returns v)
    with call Suc.IH show ?thesis by simp
  next
    case (Throws err)
    with call show ?thesis
      using record_throw_not_config [of ctx meta err] by (auto split: sum.splits)
  next
    case NeverSettles
    with call show ?thesis by simp
  qed
qed

lemmas harness_eval =
  invokeResolverWithObservation_def resolver_input_def runs_for_def js_get_opt_def js_or_def
  call_resolver_def record_throw_def as_array_for_def inherited_from_object_def
  object_prototype_keys_def eval_nat_numeral

text \<open>
  The harness does return, after the full number of trials, when the input can be
  constructed, the test identifier can be read and every call of the resolver returns.
\<close>

lemma trials_all_return:
  assumes "\<forall>i s. \<exists>v s'. call_resolver f b i s = (Returns v, s')"
  shows "\<exists>ctx' vs s'. trials n f b meta input ctx calls s
            = (Returned (ctx', calls @ successes input vs), s') \<and> length vs = n"
proof (induction n arbitrary: ctx calls s)
  case 0
  have "trials 0 f b meta input ctx calls s = (Returned (ctx, calls @ successes input []), s)
        \<and> length ([]::jsval list) = 0"
    by (simp add: successes_def)
  then show ?case by blast
next
  case (Suc n)
  from assms obtain v s1 where call: "call_resolver f b input s = (Returns v, s1)" by blast
  from Suc.IH [of "ctx\<lparr>output := v, outputs := outputs ctx @ [v]\<rparr>" "calls @ [(input, Returns v)]" s1]
  obtain ctx' vs s' where
    "trials n f b meta input (ctx\<lparr>output := v, outputs := outputs ctx @ [v]\<rparr>)
       (calls @ [(input, Returns v)]) s1
       = (Returned (ctx', (calls @ [(input, Returns v)]) @ successes input vs), s')"
    and "length vs = n"
    by blast
  with call have "trials (Suc n) f b meta input ctx calls s
            = (Returned (ctx', calls @ successes input (v # vs)), s') \<and> length (v # vs) = Suc n"
    by (simp add: successes_def)
  then show ?case by blast
qed

lemma harness_completes_all_trials:
  assumes "\<not> (uses_example fixture \<and> \<not> truthy (js_get_opt meta ''exampleAction''))"
    and "js_get testSpec ''test_id'' = Inr test_id"
    and "\<forall>i s. \<exists>v s'. call_resolver f b i s = (Returns v, s')"
  shows "\<exists>ctx calls s'. invokeResolverWithObservation f b meta testSpec fixture s
            = (Returned (ctx, calls), s') \<and> length calls = trial_limit test_id"
proof -
  let ?ctx0 = "\<lparr>resolver = f, resolverMeta = meta, output = JNull, outputs = [],
                  error = JNull, threw = False, retryCount = JNum 0\<rparr>"
  from trials_all_return [OF assms(3), of "trial_limit test_id" meta "constructed_input meta fixture" ?ctx0 "[]" s]
  obtain ctx' vs s' where
    "trials (trial_limit test_id) f b meta (constructed_input meta fixture) ?ctx0 [] s
       = (Returned (ctx', [] @ successes (constructed_input meta fixture) vs), s')"
    and "length vs = trial_limit test_id"
    by blast
  with assms(1,2) have "invokeResolverWithObservation f b meta testSpec fixture s
            = (Returned (ctx', successes (constructed_input meta fixture) vs), s')
          \<and> length (successes (constructed_input meta fixture) vs) = trial_limit test_id"
    by (simp add: invokeResolverWithObservation_def resolver_input_eq runs_for_limit successes_def)
  then show ?thesis by blast
qed



text \<open>
  The \<^verbatim>\<open>catch\<close> block completes exactly on the errors it can record, and the loop over
  the trials follows the calls of the resolver: it returns after the last of the calls when
  all of them return, and after the first call that throws.
\<close>

lemma find_first_searchable:
  assumes "list_all (\<lambda>f. \<not> nullish f) (takeWhile (\<lambda>f. \<not> P (js_get_opt f k)) fs)"
    and "\<not> P JUndefined"
  shows "find_first (\<lambda>f. and_then (js_get f k) (\<lambda>c. Inr (P c))) fs
           = Inr (find (\<lambda>f. P (js_get_opt f k)) fs)"
  using assms(1)
proof (induction fs)
  case Nil
  then show ?case by simp
next
  case (Cons f fs)
  show ?case
  proof (cases "P (js_get_opt f k)")
    case True
    with assms(2) have "\<not> nullish f" using js_get_opt_nullish [of f k] by auto
    with True show ?thesis by (simp add: js_get_defined)
  next
    case False
    with Cons.prems have "\<not> nullish f"
      and "list_all (\<lambda>f. \<not> nullish f) (takeWhile (\<lambda>f. \<not> P (js_get_opt f k)) fs)"
      by simp_all
    with False Cons.IH show ?thesis by (simp add: js_get_defined)
  qed
qed

lemma find_first_Inr_searchable:
  "find_first (\<lambda>f. and_then (js_get f k) (\<lambda>c. Inr (P c))) fs = Inr r
     \<Longrightarrow> list_all (\<lambda>f. \<not> nullish f) (takeWhile (\<lambda>f. \<not> P (js_get_opt f k)) fs)"
proof (induction fs)
  case Nil
  then show ?case by simp
next
  case (Cons f fs)
  show ?case
  proof (cases "nullish f")
    case True
    with Cons.prems show ?thesis by (simp add: js_get_nullish)
  next
    case False
    with Cons show ?thesis by (auto simp: js_get_defined split: if_splits)
  qed
qed

lemma strict_eq_undefined: "truthy code \<Longrightarrow> \<not> strict_eq JUndefined code"
  by (cases code) simp_all

lemma record_throw_recordable:
  assumes "error_recordable meta err"
  shows "record_throw ctx meta err
    = Inr (ctx\<lparr>threw := True, error := err, retryCount := (if truthy (js_get_opt err ''code'')
      then case matching_failure meta (js_get_opt err ''code'') of
             Some d \<Rightarrow> js_get_opt d ''retries''
           | None \<Rightarrow> retryCount ctx
      else retryCount ctx)\<rparr>)"
proof -
  from assms have nn: "\<not> nullish err" by (simp add: error_recordable_def)
  then have code: "js_get err ''code'' = Inr (js_get_opt err ''code'')" by (rule js_get_defined)
  show ?thesis
  proof (cases "truthy (js_get_opt err ''code'')")
    case False
    with code show ?thesis by (simp add: record_throw_def)
  next
    case True
    with assms have fsr: "failures_searchable meta (js_get_opt err ''code'')"
      by (simp add: error_recordable_def)
    then obtain declared where d: "js_get meta ''failures'' = Inr declared"
      by (cases "js_get meta ''failures''") (simp_all add: failures_searchable_def)
    then have opt: "js_get_opt meta ''failures'' = declared" by (simp add: js_get_opt_def)
    show ?thesis
    proof (cases "nullish declared")
      case nullish: True
      then have "matching_failure meta (js_get_opt err ''code'') = None"
        using opt by (cases declared) (simp_all add: matching_failure_def)
      with code True d nullish show ?thesis by (simp add: record_throw_def)
    next
      case False
      with fsr d obtain fs where arr: "declared = JArr fs"
        and pre: "list_all (\<lambda>f. \<not> nullish f)
                    (takeWhile (\<lambda>f. \<not> strict_eq (js_get_opt f ''code'') (js_get_opt err ''code'')) fs)"
        by (cases declared) (simp_all add: failures_searchable_def)
      from find_first_searchable [where P = "\<lambda>c. strict_eq c (js_get_opt err ''code'')", OF pre
          strict_eq_undefined [OF True]]
      have ff: "find_first (\<lambda>f. and_then (js_get f ''code'') (\<lambda>c. Inr (strict_eq c (js_get_opt err ''code'')))) fs
                 = Inr (find (\<lambda>f. strict_eq (js_get_opt f ''code'') (js_get_opt err ''code'')) fs)" .
      have mf: "matching_failure meta (js_get_opt err ''code'')
                 = find (\<lambda>f. strict_eq (js_get_opt f ''code'') (js_get_opt err ''code'')) fs"
        using opt arr by (simp add: matching_failure_def)
      show ?thesis
      proof (cases "find (\<lambda>f. strict_eq (js_get_opt f ''code'') (js_get_opt err ''code'')) fs")
        case None
        with code True d arr ff mf show ?thesis
          by (simp add: record_throw_def as_array_for_def)
      next
        case (Some x)
        then have "truthy x" using True find_code_truthy by metis
        with Some code True d arr ff mf show ?thesis
          by (simp add: record_throw_def as_array_for_def js_get_defined truthy_not_nullish)
      qed
    qed
  qed
qed

lemma record_throw_Inr_recordable:
  assumes "record_throw ctx meta err = Inr ctx'"
  shows "error_recordable meta err"
proof -
  have nn: "\<not> nullish err"
    using assms by (cases "nullish err") (simp_all add: record_throw_def js_get_nullish)
  then have code: "js_get err ''code'' = Inr (js_get_opt err ''code'')" by (rule js_get_defined)
  show ?thesis
  proof (cases "truthy (js_get_opt err ''code'')")
    case False
    with nn show ?thesis by (simp add: error_recordable_def)
  next
    case True
    from assms code True obtain declared where d: "js_get meta ''failures'' = Inr declared"
      by (cases "js_get meta ''failures''") (simp_all add: record_throw_def)
    show ?thesis
    proof (cases "nullish declared")
      case nullish: True
      with d have "failures_searchable meta (js_get_opt err ''code'')"
        by (cases declared) (simp_all add: failures_searchable_def)
      with nn show ?thesis by (simp add: error_recordable_def)
    next
      case False
      with assms code True d obtain fs where fs: "as_array_for ''find'' declared = Inr fs"
        by (cases "as_array_for ''find'' declared") (simp_all add: record_throw_def)
      then have arr: "declared = JArr fs" by (rule as_array_for_Inr)
      from assms code True d False fs obtain decl where
        decl: "find_first (\<lambda>f. and_then (js_get f ''code'') (\<lambda>c. Inr (strict_eq c (js_get_opt err ''code'')))) fs = Inr decl"
        by (cases "find_first (\<lambda>f. and_then (js_get f ''code'') (\<lambda>c. Inr (strict_eq c (js_get_opt err ''code'')))) fs")
           (simp_all add: record_throw_def)
      from find_first_Inr_searchable [OF decl] d arr
      have "failures_searchable meta (js_get_opt err ''code'')"
        by (simp add: failures_searchable_def)
      with nn show ?thesis by (simp add: error_recordable_def)
    qed
  qed
qed

lemma replay_success:
  assumes "replay f b ((input, Returns v) # cs) s = Some s'"
  shows "\<exists>s1. call_resolver f b input s = (Returns v, s1) \<and> replay f b cs s1 = Some s'"
  using assms by (cases "call_resolver f b input s") (auto split: if_splits)

lemma replay_throw:
  assumes "replay f b [(input, Throws err)] s = Some s'"
  shows "call_resolver f b input s = (Throws err, s')"
  using assms by (cases "call_resolver f b input s") (auto split: if_splits)

lemma trials_successes:
  "replay f b (successes input vs) s = Some s' \<Longrightarrow> length vs = n
     \<Longrightarrow> trials n f b meta input ctx calls s
           = (Returned (ctx\<lparr>output := (if vs = [] then output ctx else last vs),
                            outputs := outputs ctx @ vs\<rparr>, calls @ successes input vs), s')"
proof (induction vs arbitrary: n ctx calls s)
  case Nil
  then show ?case by (simp add: successes_def)
next
  case (Cons v vs)
  from Cons.prems(2) obtain m where n: "n = Suc m" and m: "length vs = m" by (cases n) auto
  from Cons.prems(1) have "replay f b ((input, Returns v) # successes input vs) s = Some s'"
    by (simp add: successes_def)
  from replay_success [OF this] obtain s1 where
    call: "call_resolver f b input s = (Returns v, s1)"
    and rest: "replay f b (successes input vs) s1 = Some s'"
    by blast
  from Cons.IH [OF rest m, of "ctx\<lparr>output := v, outputs := outputs ctx @ [v]\<rparr>" "calls @ [(input, Returns v)]"]
    call n
  show ?case by (simp add: successes_def)
qed

lemma trials_throw:
  "replay f b (successes input vs @ [(input, Throws err)]) s = Some s' \<Longrightarrow> length vs < n
     \<Longrightarrow> error_recordable meta err
     \<Longrightarrow> trials n f b meta input ctx calls s
           = (Returned (ctx\<lparr>output := (if vs = [] then output ctx else last vs),
                            outputs := outputs ctx @ vs, threw := True, error := err,
                            retryCount := (if truthy (js_get_opt err ''code'')
                               then case matching_failure meta (js_get_opt err ''code'') of
                                      Some d \<Rightarrow> js_get_opt d ''retries''
                                    | None \<Rightarrow> retryCount ctx
                               else retryCount ctx)\<rparr>,
                        calls @ successes input vs @ [(input, Throws err)]), s')"
proof (induction vs arbitrary: n ctx calls s)
  case Nil
  from Nil.prems(2) obtain m where n: "n = Suc m" by (cases n) auto
  from Nil.prems(1) have "replay f b [(input, Throws err)] s = Some s'"
    by (simp add: successes_def)
  from replay_throw [OF this] record_throw_recordable [OF Nil.prems(3), of ctx] n
  show ?case by (simp add: successes_def)
next
  case (Cons v vs)
  from Cons.prems(2) obtain m where n: "n = Suc m" and m: "length vs < m" by (cases n) auto
  from Cons.prems(1) have
    "replay f b ((input, Returns v) # successes input vs @ [(input, Throws err)]) s = Some s'"
    by (simp add: successes_def)
  from replay_success [OF this] obtain s1 where
    call: "call_resolver f b input s = (Returns v, s1)"
    and rest: "replay f b (successes input vs @ [(input, Throws err)]) s1 = Some s'"
    by blast
  from Cons.IH [OF rest m Cons.prems(3), of "ctx\<lparr>output := v, outputs := outputs ctx @ [v]\<rparr>"
      "calls @ [(input, Returns v)]"] call n
  show ?case by (simp add: successes_def cong: option.case_cong)
qed

lemma trials_settle:
  assumes "\<forall>i t. fst (call_resolver f b i t) \<noteq> NeverSettles"
    and "\<forall>i t err. fst (call_resolver f b i t) = Throws err \<longrightarrow> error_recordable meta err"
  shows "\<exists>c cs t. trials n f b meta input ctx calls s = (Returned (c, cs), t)"
proof (induction n arbitrary: ctx calls s)
  case 0
  show ?case by simp
next
  case (Suc n)
  obtain result s1 where call: "call_resolver f b input s = (result, s1)"
    by (cases "call_resolver f b input s")
  show ?case
  proof (cases result)
    case (Returns v)
    with call Suc.IH show ?thesis by simp
  next
    case (Throws err)
    with call assms(2) have "error_recordable meta err" by (metis fst_conv)
    from record_throw_recordable [OF this, of ctx] call Throws show ?thesis by simp
  next
    case NeverSettles
    with call assms(1) show ?thesis by (metis fst_conv)
  qed
qed

lemma trials_thrown_recordable:
  "trials n f b meta input ctx calls s = (Returned (ctx', calls'), s')
     \<Longrightarrow> calls' = pre @ [(i, Throws err)] \<Longrightarrow> calls' = calls \<or> error_recordable meta err"
proof (induction n arbitrary: ctx calls s)
  case 0
  then show ?case by simp
next
  case (Suc n)
  obtain result s1 where call: "call_resolver f b input s = (result, s1)"
    by (cases "call_resolver f b input s")
  show ?case
  proof (cases result)
    case (Returns v)
    with Suc.prems(1) call have
      run: "trials n f b meta input (ctx\<lparr>output := v, outputs := outputs ctx @ [v]\<rparr>)
         (calls @ [(input, Returns v)]) s1 = (Returned (ctx', calls'), s')"
      by simp
    from Suc.IH [OF run Suc.prems(2)] Suc.prems(2) show ?thesis by auto
  next
    case (Throws e)
    with Suc.prems(1) call obtain c where c: "record_throw ctx meta e = Inr c"
      and cs: "calls' = calls @ [(input, Throws e)]"
      by (auto split: sum.splits)
    from cs Suc.prems(2) have "e = err" by simp
    with record_throw_Inr_recordable [OF c] show ?thesis by simp
  next
    case NeverSettles
    with Suc.prems(1) call show ?thesis by simp
  qed
qed

lemma length_successes: "length (successes input vs) = length vs"
  by (simp add: successes_def)

lemma trial_limit_positive: "0 < trial_limit test_id"
  by (simp add: trial_limit_def)

lemma harness_all_succeed:
  assumes "\<not> (uses_example fixture \<and> \<not> truthy (js_get_opt meta ''exampleAction''))"
    and "js_get testSpec ''test_id'' = Inr test_id"
    and "replay f b (successes (constructed_input meta fixture) vs) s = Some s'"
    and "length vs = trial_limit test_id"
  shows "invokeResolverWithObservation f b meta testSpec fixture s
    = (Returned (\<lparr>resolver = f, resolverMeta = meta,
                   output = (if vs = [] then JNull else last vs), outputs = vs,
                   error = JNull, threw = False, retryCount = JNum 0\<rparr>,
                 successes (constructed_input meta fixture) vs), s')"
  using assms(1,2)
    trials_successes [OF assms(3,4), of meta
      "\<lparr>resolver = f, resolverMeta = meta, output = JNull, outputs = [],
        error = JNull, threw = False, retryCount = JNum 0\<rparr>" "[]"]
  by (simp add: invokeResolverWithObservation_def resolver_input_eq runs_for_limit)

lemma harness_one_throws:
  assumes "\<not> (uses_example fixture \<and> \<not> truthy (js_get_opt meta ''exampleAction''))"
    and "js_get testSpec ''test_id'' = Inr test_id"
    and "replay f b (successes (constructed_input meta fixture) vs
           @ [(constructed_input meta fixture, Throws err)]) s = Some s'"
    and "length vs < trial_limit test_id"
    and "error_recordable meta err"
  shows "invokeResolverWithObservation f b meta testSpec fixture s
    = (Returned (\<lparr>resolver = f, resolverMeta = meta,
                   output = (if vs = [] then JNull else last vs), outputs = vs,
                   error = err, threw = True, retryCount = retry_after meta err\<rparr>,
                 successes (constructed_input meta fixture) vs
                   @ [(constructed_input meta fixture, Throws err)]), s')"
  using assms(1,2)
    trials_throw [OF assms(3,4,5), of
      "\<lparr>resolver = f, resolverMeta = meta, output = JNull, outputs = [],
        error = JNull, threw = False, retryCount = JNum 0\<rparr>" "[]"]
  by (simp add: invokeResolverWithObservation_def resolver_input_eq runs_for_limit retry_after_def
        cong: option.case_cong)

lemma harness_returned_recordable:
  assumes "invokeResolverWithObservation f b meta testSpec fixture s = (Returned (ctx, calls), s')"
    and "calls = pre @ [(i, Throws err)]"
  shows "error_recordable meta err"
proof -
  let ?ctx0 = "\<lparr>resolver = f, resolverMeta = meta, output = JNull, outputs = [],
                  error = JNull, threw = False, retryCount = JNum 0\<rparr>"
  from assms(1) have inp: "resolver_input meta fixture = Inr (constructed_input meta fixture)"
    by (auto simp: invokeResolverWithObservation_def resolver_input_eq split: if_splits)
  with assms(1) obtain test_id where tid: "js_get testSpec ''test_id'' = Inr test_id"
    by (cases "js_get testSpec ''test_id''") (simp_all add: invokeResolverWithObservation_def)
  with assms(1) inp have run:
    "trials (trial_limit test_id) f b meta (constructed_input meta fixture) ?ctx0 [] s
       = (Returned (ctx, calls), s')"
    by (simp add: invokeResolverWithObservation_def runs_for_limit)
  from trials_thrown_recordable [OF run assms(2)] assms(2) show ?thesis by simp
qed

lemma harness_constructs_input:
  assumes "invokeResolverWithObservation f b meta testSpec fixture s = (Returned (ctx, calls), s')"
  shows "\<not> (uses_example fixture \<and> \<not> truthy (js_get_opt meta ''exampleAction''))"
  using assms by (auto simp: invokeResolverWithObservation_def resolver_input_eq split: if_splits)

text \<open>
  C2, as the specification states it, fails: when the thrown error and a declared failure
  both carry the empty string as code, the codes match but \<^verbatim>\<open>retryCount\<close> stays 0,
  because the harness looks for a declared failure only when the code is truthy.
\<close>

theorem harness_retry_empty_code_counterexample:
  "invokeResolverWithObservation (JFun []) (always_throws empty_code_error) empty_code_declaration
      (JObj [(''test_id'', JStr ''R-006-failure'')]) (JObj []) ()
    = (Returned
        (\<lparr>resolver = JFun [], resolverMeta = empty_code_declaration, output = JNull,
           outputs = [], error = empty_code_error, threw = True, retryCount = JNum 0\<rparr>,
         [(JObj [], Throws empty_code_error)]), ())
   \<and> retry_spec empty_code_declaration empty_code_error = JNum 2"
  by (simp add: harness_eval always_throws_def empty_code_declaration_def empty_code_error_def
        retry_spec_def matching_failure_def)

text \<open>
  C2 (amended): the harness returns a context exactly when the input can be constructed,
  \<^verbatim>\<open>testSpec.test_id\<close> can be read, and the resolver, called sequentially with the
  constructed input from its initial state, either returns every time, and then it is called
  exactly 3 times when the test identifier is the determinism test identifier and exactly
  once otherwise, or throws at one of at most that many calls an error that the
  \<^verbatim>\<open>catch\<close> block records, and then that call is the last one.  In the first case the
  context returned has \<^verbatim>\<open>threw\<close> false, \<^verbatim>\<open>error\<close> \<^verbatim>\<open>null\<close> and \<^verbatim>\<open>retryCount\<close> 0; in
  the second \<^verbatim>\<open>threw\<close> is set, the error is recorded, the outputs are the results of the
  successful calls only, and \<^verbatim>\<open>retryCount\<close> is the declared retries of the first declared
  failure with the code of the error when that code is truthy and declared, and 0 otherwise.
  In particular the harness does return a context for every resolver whose calls settle and
  throw only errors that the \<^verbatim>\<open>catch\<close> block records.
\<close>

theorem harness_trials:
  "(invokeResolverWithObservation f b meta testSpec fixture s = (Returned (ctx, calls), s')
      \<longleftrightarrow> \<not> (uses_example fixture \<and> \<not> truthy (js_get_opt meta ''exampleAction''))
        \<and> (\<exists>test_id.
              js_get testSpec ''test_id'' = Inr test_id
            \<and> replay f b calls s = Some s'
            \<and> ((calls = successes (constructed_input meta fixture) (outputs ctx)
                   \<and> length calls = trial_limit test_id
                   \<and> ctx = \<lparr>resolver = f, resolverMeta = meta, output = last (outputs ctx),
                            outputs = outputs ctx, error = JNull, threw = False,
                            retryCount = JNum 0\<rparr>)
               \<or> (\<exists>err. calls = successes (constructed_input meta fixture) (outputs ctx)
                                @ [(constructed_input meta fixture, Throws err)]
                    \<and> length calls \<le> trial_limit test_id
                    \<and> error_recordable meta err
                    \<and> ctx = \<lparr>resolver = f, resolverMeta = meta,
                             output = (if outputs ctx = [] then JNull else last (outputs ctx)),
                             outputs = outputs ctx, error = err, threw = True,
                             retryCount = retry_after meta err\<rparr>))))
   \<and> (\<not> (uses_example fixture \<and> \<not> truthy (js_get_opt meta ''exampleAction''))
        \<and> js_get testSpec ''test_id'' = Inr tid
        \<and> (\<forall>i t. fst (call_resolver f b i t) \<noteq> NeverSettles)
        \<and> (\<forall>i t err. fst (call_resolver f b i t) = Throws err \<longrightarrow> error_recordable meta err)
      \<longrightarrow> (\<exists>c cs t. invokeResolverWithObservation f b meta testSpec fixture s
                      = (Returned (c, cs), t)))"
  (is "(?returned \<longleftrightarrow> ?ok \<and> (\<exists>test_id. ?readable test_id \<and> ?replayed \<and> (?all test_id \<or> (\<exists>err. ?thrown test_id err))))
        \<and> (?given \<longrightarrow> ?returns)")
proof (rule conjI)
  let ?input = "constructed_input meta fixture"
  show "?returned \<longleftrightarrow> ?ok \<and> (\<exists>test_id. ?readable test_id \<and> ?replayed \<and> (?all test_id \<or> (\<exists>err. ?thrown test_id err)))"
  proof
    assume run: ?returned
    have ok: ?ok using run by (rule harness_constructs_input)
    from harness_returned [OF run] obtain test_id vs where
      tid: "js_get testSpec ''test_id'' = Inr test_id" and rp: "replay f b calls s = Some s'"
      and o: "outputs ctx = vs"
      and d: "(calls = successes ?input vs \<and> length vs = trial_limit test_id
                \<and> \<not> threw ctx \<and> error ctx = JNull \<and> retryCount ctx = JNum 0)
              \<or> (\<exists>err. calls = successes ?input vs @ [(?input, Throws err)]
                   \<and> length vs < trial_limit test_id \<and> thrown_state (JNum 0) meta err ctx)"
      by blast
    from d have "?all test_id \<or> (\<exists>err. ?thrown test_id err)"
    proof
      assume a: "calls = successes ?input vs \<and> length vs = trial_limit test_id
                \<and> \<not> threw ctx \<and> error ctx = JNull \<and> retryCount ctx = JNum 0"
      then have c: "calls = successes ?input vs" and l: "length vs = trial_limit test_id"
        by simp_all
      from rp c have "replay f b (successes ?input vs) s = Some s'" by simp
      from harness_all_succeed [OF ok tid this l] run c
      have "ctx = \<lparr>resolver = f, resolverMeta = meta,
                     output = (if vs = [] then JNull else last vs), outputs = vs,
                     error = JNull, threw = False, retryCount = JNum 0\<rparr>"
        by simp
      moreover from l have "vs \<noteq> []" using trial_limit_positive [of test_id] by auto
      ultimately have "?all test_id" using c l o by (simp add: successes_def)
      then show ?thesis ..
    next
      assume "\<exists>err. calls = successes ?input vs @ [(?input, Throws err)]
                   \<and> length vs < trial_limit test_id \<and> thrown_state (JNum 0) meta err ctx"
      then obtain err where c: "calls = successes ?input vs @ [(?input, Throws err)]"
        and l: "length vs < trial_limit test_id"
        by blast
      from harness_returned_recordable [OF run c] have rec: "error_recordable meta err" .
      from rp c have "replay f b (successes ?input vs @ [(?input, Throws err)]) s = Some s'"
        by simp
      from harness_one_throws [OF ok tid this l rec] run c
      have "ctx = \<lparr>resolver = f, resolverMeta = meta,
                     output = (if vs = [] then JNull else last vs), outputs = vs,
                     error = err, threw = True, retryCount = retry_after meta err\<rparr>"
        by simp
      with c l o rec have "?thrown test_id err" by (simp add: successes_def)
      then show ?thesis by blast
    qed
    with ok tid rp
    show "?ok \<and> (\<exists>test_id. ?readable test_id \<and> ?replayed \<and> (?all test_id \<or> (\<exists>err. ?thrown test_id err)))"
      by blast
  next
    assume rhs: "?ok \<and> (\<exists>test_id. ?readable test_id \<and> ?replayed \<and> (?all test_id \<or> (\<exists>err. ?thrown test_id err)))"
    then have ok: ?ok by (rule conjunct1)
    from rhs obtain test_id where tid: "js_get testSpec ''test_id'' = Inr test_id"
      and rp: "replay f b calls s = Some s'"
      and d: "?all test_id \<or> (\<exists>err. ?thrown test_id err)"
      by blast
    from d show ?returned
    proof
      assume a: "?all test_id"
      then have c: "calls = successes ?input (outputs ctx)"
        and lc: "length calls = trial_limit test_id"
        and x: "ctx = \<lparr>resolver = f, resolverMeta = meta, output = last (outputs ctx),
                   outputs = outputs ctx, error = JNull, threw = False, retryCount = JNum 0\<rparr>"
        by blast+
      from lc have l: "length (outputs ctx) = trial_limit test_id"
        unfolding c length_successes .
      from l have ne: "outputs ctx \<noteq> []" using trial_limit_positive [of test_id] by auto
      from rp c have "replay f b (successes ?input (outputs ctx)) s = Some s'" by simp
      from harness_all_succeed [OF ok tid this l] ne have
        "invokeResolverWithObservation f b meta testSpec fixture s
          = (Returned (\<lparr>resolver = f, resolverMeta = meta, output = last (outputs ctx),
                   outputs = outputs ctx, error = JNull, threw = False, retryCount = JNum 0\<rparr>,
              successes ?input (outputs ctx)), s')"
        by simp
      with c x show ?thesis by metis
    next
      assume "\<exists>err. ?thrown test_id err"
      then obtain err where t: "?thrown test_id err" ..
      then have c: "calls = successes ?input (outputs ctx) @ [(?input, Throws err)]"
        and lc: "length calls \<le> trial_limit test_id"
        and rec: "error_recordable meta err"
        and x: "ctx = \<lparr>resolver = f, resolverMeta = meta,
                      output = (if outputs ctx = [] then JNull else last (outputs ctx)),
                      outputs = outputs ctx, error = err, threw = True,
                      retryCount = retry_after meta err\<rparr>"
        by blast+
      from lc have "length (successes ?input (outputs ctx) @ [(?input, Throws err)]) \<le> trial_limit test_id"
        unfolding c .
      then have l: "length (outputs ctx) < trial_limit test_id"
        by (simp add: length_successes)
      from rp c have "replay f b (successes ?input (outputs ctx) @ [(?input, Throws err)]) s = Some s'"
        by simp
      from harness_one_throws [OF ok tid this l rec] c x show ?thesis by metis
    qed
  qed
next
  let ?ctx0 = "\<lparr>resolver = f, resolverMeta = meta, output = JNull, outputs = [],
                  error = JNull, threw = False, retryCount = JNum 0\<rparr>"
  show "?given \<longrightarrow> ?returns"
  proof
    assume a: ?given
    then have settle: "\<forall>i t. fst (call_resolver f b i t) \<noteq> NeverSettles"
      and rec: "\<forall>i t err. fst (call_resolver f b i t) = Throws err \<longrightarrow> error_recordable meta err"
      by blast+
    from trials_settle [OF settle rec, of "trial_limit tid" "constructed_input meta fixture" ?ctx0 "[]" s]
      a
    show ?returns
      by (simp add: invokeResolverWithObservation_def resolver_input_eq runs_for_limit)
  qed
qed

theorem harness_trials_witness:
  "invokeResolverWithObservation (JFun []) echo example_declaration
      (JObj [(''test_id'', JStr ''R-011-determinism'')]) (JObj [(''invoke'', JStr ''ping'')]) ()
    = (Returned
        (\<lparr>resolver = JFun [], resolverMeta = example_declaration, output = JStr ''ping'',
           outputs = [JStr ''ping'', JStr ''ping'', JStr ''ping''], error = JNull,
           threw = False, retryCount = JNum 0\<rparr>,
         [(JStr ''ping'', Returns (JStr ''ping'')), (JStr ''ping'', Returns (JStr ''ping'')),
          (JStr ''ping'', Returns (JStr ''ping''))]), ())
   \<and> trial_limit (JStr ''R-011-determinism'') = 3
   \<and> error_recordable example_declaration (JObj [(''code'', JStr ''NOT_FOUND'')])
   \<and> invokeResolverWithObservation (JFun [])
        (always_throws (JObj [(''code'', JStr ''NOT_FOUND'')])) example_declaration
        (JObj [(''test_id'', JStr ''R-006-failure'')]) (JObj []) ()
    = (Returned
        (\<lparr>resolver = JFun [], resolverMeta = example_declaration, output = JNull,
           outputs = [], error = JObj [(''code'', JStr ''NOT_FOUND'')],
           threw = True, retryCount = JNum 2\<rparr>,
         [(JObj [], Throws (JObj [(''code'', JStr ''NOT_FOUND'')]))]), ())
   \<and> error_recordable example_declaration (JObj [(''message'', JStr ''boom'')])
   \<and> invokeResolverWithObservation (JFun [])
        (always_throws (JObj [(''message'', JStr ''boom'')])) example_declaration
        (JObj [(''test_id'', JStr ''R-011-determinism'')]) (JObj []) ()
    = (Returned
        (\<lparr>resolver = JFun [], resolverMeta = example_declaration, output = JNull,
           outputs = [], error = JObj [(''message'', JStr ''boom'')],
           threw = True, retryCount = JNum 0\<rparr>,
         [(JObj [], Throws (JObj [(''message'', JStr ''boom'')]))]), ())
   \<and> (\<exists>c cs t. invokeResolverWithObservation (JFun []) two_then_not_found example_declaration
        (JObj [(''test_id'', JStr ''R-011-determinism'')]) (JObj []) 0 = (Returned (c, cs), t))"
proof -
  have input: "constructed_input example_declaration (JObj [(''invoke'', JStr ''ping'')]) = JStr ''ping''"
    "constructed_input example_declaration (JObj []) = JObj []"
    "\<not> uses_example (JObj [(''invoke'', JStr ''ping'')])" "\<not> uses_example (JObj [])"
    by (simp_all add: constructed_input_def uses_example_def js_get_opt_def
          inherited_from_object_def object_prototype_keys_def)
  have limits: "trial_limit (JStr ''R-011-determinism'') = 3" "trial_limit (JStr ''R-006-failure'') = 1"
    by (simp_all add: trial_limit_def)
  have declared: "error_recordable example_declaration (JObj [(''code'', JStr ''NOT_FOUND'')])"
    by (simp add: error_recordable_def failures_searchable_def example_declaration_def js_get_opt_def)
  have plain: "error_recordable example_declaration (JObj [(''message'', JStr ''boom'')])"
    by (simp add: error_recordable_def js_get_opt_def inherited_from_object_def
          object_prototype_keys_def)
  have retry: "retry_after example_declaration (JObj [(''code'', JStr ''NOT_FOUND'')]) = JNum 2"
    "retry_after example_declaration (JObj [(''message'', JStr ''boom'')]) = JNum 0"
    by (simp_all add: retry_after_def matching_failure_def example_declaration_def js_get_opt_def
          inherited_from_object_def object_prototype_keys_def)
  have one: "invokeResolverWithObservation (JFun []) echo example_declaration
      (JObj [(''test_id'', JStr ''R-011-determinism'')]) (JObj [(''invoke'', JStr ''ping'')]) ()
    = (Returned
        (\<lparr>resolver = JFun [], resolverMeta = example_declaration, output = JStr ''ping'',
           outputs = [JStr ''ping'', JStr ''ping'', JStr ''ping''], error = JNull,
           threw = False, retryCount = JNum 0\<rparr>,
         [(JStr ''ping'', Returns (JStr ''ping'')), (JStr ''ping'', Returns (JStr ''ping'')),
          (JStr ''ping'', Returns (JStr ''ping''))]), ())"
    unfolding harness_trials [THEN conjunct1]
    by (simp add: input limits successes_def call_resolver_def echo_def)
  have two: "invokeResolverWithObservation (JFun [])
        (always_throws (JObj [(''code'', JStr ''NOT_FOUND'')])) example_declaration
        (JObj [(''test_id'', JStr ''R-006-failure'')]) (JObj []) ()
    = (Returned
        (\<lparr>resolver = JFun [], resolverMeta = example_declaration, output = JNull,
           outputs = [], error = JObj [(''code'', JStr ''NOT_FOUND'')],
           threw = True, retryCount = JNum 2\<rparr>,
         [(JObj [], Throws (JObj [(''code'', JStr ''NOT_FOUND'')]))]), ())"
    unfolding harness_trials [THEN conjunct1]
    by (simp add: input limits declared retry successes_def call_resolver_def always_throws_def)
  have three: "invokeResolverWithObservation (JFun [])
        (always_throws (JObj [(''message'', JStr ''boom'')])) example_declaration
        (JObj [(''test_id'', JStr ''R-011-determinism'')]) (JObj []) ()
    = (Returned
        (\<lparr>resolver = JFun [], resolverMeta = example_declaration, output = JNull,
           outputs = [], error = JObj [(''message'', JStr ''boom'')],
           threw = True, retryCount = JNum 0\<rparr>,
         [(JObj [], Throws (JObj [(''message'', JStr ''boom'')]))]), ())"
    unfolding harness_trials [THEN conjunct1]
    by (simp add: input limits plain retry successes_def call_resolver_def always_throws_def)
  have settles: "\<forall>i t. fst (call_resolver (JFun []) two_then_not_found i t) \<noteq> NeverSettles"
    by (simp add: call_resolver_def two_then_not_found_def)
  have throws: "\<forall>i t err. fst (call_resolver (JFun []) two_then_not_found i t) = Throws err
                  \<longrightarrow> error_recordable example_declaration err"
    using declared by (auto simp: call_resolver_def two_then_not_found_def)
  have readable: "js_get (JObj [(''test_id'', JStr ''R-011-determinism'')]) ''test_id''
                    = Inr (JStr ''R-011-determinism'')"
    by simp
  from harness_trials [THEN conjunct2, of "JObj []" example_declaration
      "JObj [(''test_id'', JStr ''R-011-determinism'')]" "JStr ''R-011-determinism''" "JFun []"
      two_then_not_found 0] input(4) readable settles throws
  have four: "\<exists>c cs t. invokeResolverWithObservation (JFun []) two_then_not_found example_declaration
        (JObj [(''test_id'', JStr ''R-011-determinism'')]) (JObj []) 0 = (Returned (c, cs), t)"
    by blast
  from one limits(1) declared two plain three four show ?thesis by blast
qed

text \<open>
  The \<^verbatim>\<open>catch\<close> block reads \<^verbatim>\<open>err.code\<close> without a guard: a resolver that throws
  \<^verbatim>\<open>null\<close> makes the harness itself throw a TypeError to its caller.
\<close>

lemma harness_throws_on_null_error:
  "invokeResolverWithObservation (JFun []) (always_throws JNull) example_declaration
     (JObj [(''test_id'', JStr ''R-006-failure'')]) (JObj []) () = (Raised TypeError, ())"
  by (simp add: harness_eval always_throws_def)

text \<open>
  C5, as the specification states it, fails: with the dynamic-example marker the harness
  throws the configuration error for every falsy \<^verbatim>\<open>exampleAction\<close>, also for one that
  is present, such as \<^verbatim>\<open>0\<close>.
\<close>

theorem harness_example_present_counterexample:
  "\<not> (fst (invokeResolverWithObservation (JFun []) echo (JObj [(''exampleAction'', JNum 0)])
             (JObj [(''test_id'', JStr ''R-006-failure'')])
             (JObj [(''invoke'', JStr ''__USE_RESOLVER_EXAMPLE_ACTION__'')]) ()) = Raised ConfigError
        \<longleftrightarrow> example_absent (JObj [(''exampleAction'', JNum 0)]))"
  by (simp add: harness_eval example_absent_def)

text \<open>
  C5 (amended): if the fixture's invoke value is the dynamic-example marker, the input is
  \<^verbatim>\<open>declaration.exampleAction\<close>, and the harness throws the configuration error iff
  \<^verbatim>\<open>exampleAction\<close> is absent or falsy; otherwise the input is the fixture's invoke value
  when that is truthy, and an empty object when it is absent or falsy.  Every call the
  harness makes passes this input.
\<close>

theorem harness_input:
  "(fst (invokeResolverWithObservation f b meta testSpec fixture s) = Raised ConfigError
      \<longleftrightarrow> uses_example fixture \<and> \<not> truthy (js_get_opt meta ''exampleAction''))
   \<and> (\<forall>ctx calls s'.
        invokeResolverWithObservation f b meta testSpec fixture s = (Returned (ctx, calls), s')
        \<longrightarrow> (\<forall>c \<in> set calls. fst c = constructed_input meta fixture))"
proof
  show "fst (invokeResolverWithObservation f b meta testSpec fixture s) = Raised ConfigError
      \<longleftrightarrow> uses_example fixture \<and> \<not> truthy (js_get_opt meta ''exampleAction'')"
  proof (cases "uses_example fixture \<and> \<not> truthy (js_get_opt meta ''exampleAction'')")
    case True
    then show ?thesis by (simp add: invokeResolverWithObservation_def resolver_input_eq)
  next
    case False
    then have inp: "resolver_input meta fixture = Inr (constructed_input meta fixture)"
      by (simp add: resolver_input_eq)
    have "fst (invokeResolverWithObservation f b meta testSpec fixture s) \<noteq> Raised ConfigError"
    proof (cases "js_get testSpec ''test_id''")
      case (Inl e)
      then have "e = TypeError" by (rule js_get_error)
      with Inl inp show ?thesis by (simp add: invokeResolverWithObservation_def)
    next
      case (Inr test_id)
      with inp show ?thesis
        using trials_not_config [of "runs_for test_id" f b meta "constructed_input meta fixture"]
        by (auto simp: invokeResolverWithObservation_def fst_def split: prod.splits)
    qed
    with False show ?thesis by simp
  qed
next
  show "\<forall>ctx calls s'.
        invokeResolverWithObservation f b meta testSpec fixture s = (Returned (ctx, calls), s')
        \<longrightarrow> (\<forall>c \<in> set calls. fst c = constructed_input meta fixture)"
  proof (intro allI impI)
    fix ctx calls s'
    assume run: "invokeResolverWithObservation f b meta testSpec fixture s = (Returned (ctx, calls), s')"
    from harness_returned [OF run] show "\<forall>c \<in> set calls. fst c = constructed_input meta fixture"
      by (auto simp: successes_def)
  qed
qed

theorem harness_input_witness:
  "fst (invokeResolverWithObservation (JFun []) echo (JObj [])
          (JObj [(''test_id'', JStr ''R-006-failure'')])
          (JObj [(''invoke'', JStr ''__USE_RESOLVER_EXAMPLE_ACTION__'')]) ()) = Raised ConfigError
   \<and> invokeResolverWithObservation (JFun []) echo (JObj [(''exampleAction'', JStr ''Action lookup'')])
          (JObj [(''test_id'', JStr ''R-006-failure'')])
          (JObj [(''invoke'', JStr ''__USE_RESOLVER_EXAMPLE_ACTION__'')]) ()
       = (Returned
           (\<lparr>resolver = JFun [], resolverMeta = JObj [(''exampleAction'', JStr ''Action lookup'')],
              output = JStr ''Action lookup'', outputs = [JStr ''Action lookup''], error = JNull,
              threw = False, retryCount = JNum 0\<rparr>,
            [(JStr ''Action lookup'', Returns (JStr ''Action lookup''))]), ())
   \<and> constructed_input (JObj [(''exampleAction'', JStr ''Action lookup'')])
          (JObj [(''invoke'', JStr ''__USE_RESOLVER_EXAMPLE_ACTION__'')]) = JStr ''Action lookup''
   \<and> constructed_input (JObj []) (JObj []) = JObj []"
proof -
  have absent: "uses_example (JObj [(''invoke'', JStr ''__USE_RESOLVER_EXAMPLE_ACTION__'')])
     \<and> \<not> truthy (js_get_opt (JObj []) ''exampleAction'')"
    by (simp add: uses_example_def js_get_opt_def inherited_from_object_def object_prototype_keys_def)
  have run: "invokeResolverWithObservation (JFun []) echo (JObj [(''exampleAction'', JStr ''Action lookup'')])
          (JObj [(''test_id'', JStr ''R-006-failure'')])
          (JObj [(''invoke'', JStr ''__USE_RESOLVER_EXAMPLE_ACTION__'')]) ()
       = (Returned
           (\<lparr>resolver = JFun [], resolverMeta = JObj [(''exampleAction'', JStr ''Action lookup'')],
              output = JStr ''Action lookup'', outputs = [JStr ''Action lookup''], error = JNull,
              threw = False, retryCount = JNum 0\<rparr>,
            [(JStr ''Action lookup'', Returns (JStr ''Action lookup''))]), ())"
    by (simp add: harness_eval echo_def)
  show ?thesis
    using absent run
      harness_input [of "JFun []" echo "JObj []" "JObj [(''test_id'', JStr ''R-006-failure'')]"
        "JObj [(''invoke'', JStr ''__USE_RESOLVER_EXAMPLE_ACTION__'')]" "()"]
      harness_input [of "JFun []" echo "JObj [(''exampleAction'', JStr ''Action lookup'')]"
        "JObj [(''test_id'', JStr ''R-006-failure'')]"
        "JObj [(''invoke'', JStr ''__USE_RESOLVER_EXAMPLE_ACTION__'')]" "()"]
    by (simp add: constructed_input_def uses_example_def js_get_opt_def inherited_from_object_def
          object_prototype_keys_def)
qed

section \<open>Properties of the assertion runner\<close>

lemma and_then_assoc: "and_then (and_then m f) g = and_then m (\<lambda>x. and_then (f x) g)"
  by (cases m) simp_all

lemma and_then_if: "and_then (if c then m else n) g = (if c then and_then m g else and_then n g)"
  by simp

lemma assertion_step_appends:
  "assertion_step a target status collected
     = and_then (assertion_step a target status []) (\<lambda>fs. Inr (collected @ fs))"
  unfolding assertion_step_def Let_def
  by (simp add: and_then_assoc and_then_if split_def cong: if_cong)

lemma and_then_Inr_iff:
  "and_then m f = Inr y \<longleftrightarrow> (\<exists>v. m = Inr v \<and> f v = Inr y)"
  by (cases m) simp_all

lemma short_and_then: "(\<And>v. short (f v)) \<Longrightarrow> short (and_then m f)"
  by (cases m) (simp_all add: short_def)

lemma short_if: "short x \<Longrightarrow> short y \<Longrightarrow> short (if c then x else y)"
  by simp

lemma short_pair: "(\<And>a b. short (f a b)) \<Longrightarrow> short (case p of (a, b) \<Rightarrow> f a b)"
  by (cases p) simp

lemma short_values: "short (Inr [])" "short (Inr ([] @ [x]))"
  by (simp_all add: short_def)

lemma assertion_step_short: "short (assertion_step a target status [])"
  unfolding assertion_step_def Let_def
  by (intro short_and_then short_if short_pair short_values)

lemma assertion_step_at_most_one:
  "assertion_step a target status [] = Inr fs \<Longrightarrow> length fs \<le> 1"
  using assertion_step_short [of a target status] by (simp add: short_def)

lemma assertion_loop_eq:
  "assertion_loop items target status collected
     = and_then (map_each (\<lambda>a. assertion_step a target status []) items)
         (\<lambda>fss. Inr (collected @ concat fss))"
proof (induction items arbitrary: collected)
  case Nil
  show ?case by simp
next
  case (Cons a items)
  show ?case
  proof (cases "assertion_step a target status []")
    case (Inl e)
    then show ?thesis by (simp add: assertion_step_appends [of a target status collected])
  next
    case (Inr fs)
    then show ?thesis
      by (simp add: assertion_step_appends [of a target status collected] Cons.IH and_then_assoc)
  qed
qed

lemma map_each_Inr:
  "map_each f xs = Inr ys \<longleftrightarrow> (\<forall>x \<in> set xs. \<exists>y. f x = Inr y) \<and> ys = map (\<lambda>x. projr (f x)) xs"
proof (induction xs arbitrary: ys)
  case Nil
  show ?case by auto
next
  case (Cons x xs)
  show ?case
  proof (cases "f x")
    case (Inl e)
    then show ?thesis by auto
  next
    case (Inr y)
    then show ?thesis using Cons.IH by (cases "map_each f xs") auto
  qed
qed

lemma map_each_Inl:
  "(\<exists>e. map_each f xs = Inl e) \<longleftrightarrow> (\<exists>x \<in> set xs. \<exists>e. f x = Inl e)"
proof (induction xs)
  case Nil
  show ?case by simp
next
  case (Cons x xs)
  show ?case
  proof (cases "f x")
    case (Inl e)
    then show ?thesis by auto
  next
    case (Inr y)
    then show ?thesis using Cons.IH by (cases "map_each f xs") auto
  qed
qed

lemma runAssertions_list:
  assumes "js_get testSpec ''assertions'' = Inr (JArr items)" and "items \<noteq> []"
  shows "runAssertions testSpec target status
           = and_then (map_each (\<lambda>a. assertion_step a target (effective_status status) []) items)
               (\<lambda>fss. Inr (report_of (concat fss)))"
  using assms
  by (simp add: runAssertions_def Let_def js_get_opt_def iterate_def assertion_loop_eq
        and_then_assoc report_of_def effective_status_def)

lemma runAssertions_single:
  "runAssertions (single_spec a) target status
     = and_then (assertion_step a target (effective_status status) []) (\<lambda>fs. Inr (report_of fs))"
proof -
  have "js_get (single_spec a) ''assertions'' = Inr (JArr [a])" by (simp add: single_spec_def)
  from runAssertions_list [OF this] show ?thesis by (simp add: and_then_assoc)
qed

lemma individual_failures_eq:
  "individual_failures a target status
     = (case assertion_step a target (effective_status status) [] of Inr fs \<Rightarrow> fs | Inl e \<Rightarrow> [])"
  by (simp add: individual_failures_def runAssertions_single report_of_def split: sum.splits)

lemma fails_individually_eq:
  "fails_individually a target status
     = (case assertion_step a target (effective_status status) [] of Inr fs \<Rightarrow> fs \<noteq> [] | Inl e \<Rightarrow> False)"
  by (simp add: fails_individually_def runAssertions_single report_of_def split: sum.splits)

lemma throws_individually_eq:
  "throws_individually a target status
     = (\<exists>e. assertion_step a target (effective_status status) [] = Inl e)"
  by (cases "assertion_step a target (effective_status status) []")
     (simp_all add: throws_individually_def runAssertions_single)

lemma individual_count:
  "length (individual_failures a target status) = (if fails_individually a target status then 1 else 0)"
proof (cases "assertion_step a target (effective_status status) []")
  case (Inl e)
  then show ?thesis by (simp add: individual_failures_eq fails_individually_eq)
next
  case (Inr fs)
  from assertion_step_at_most_one [OF this] have "fs = [] \<or> length fs = 1"
    by (cases fs) auto
  with Inr show ?thesis by (auto simp: individual_failures_eq fails_individually_eq)
qed

lemma unknown_type_individually:
  assumes "\<not> nullish a" and "\<not> registered (to_string (js_get_opt a ''type''))"
  shows "assertion_step a target status [] = Inr [unknown_type_failure a]"
  using assms by (simp add: assertion_step_def js_get_defined unknown_type_failure_def Let_def)

lemmas runner_eval =
  runAssertions_def assertion_step_def registered_def call_handler_def assertionHandlers_def
  handler_names_def boolean_def iterate_def js_get_opt_def js_or_def Let_def
  inherited_from_object_def object_prototype_keys_def
  checkResolverInputsValid_def checkResolverOutputsValid_def checkResolverFailuresValid_def
  checkFieldNamesNormalized_def

text \<open>
  C1, as the specification states it, fails: the runner has no handler for exceptions, so a
  validator that throws ends the run without a report.  On the declaration
  \<^verbatim>\<open>{inputs: [null]}\<close> the assertion \<^verbatim>\<open>field_names_normalized\<close> throws a TypeError,
  and the assertion \<^verbatim>\<open>resolver_inputs_valid\<close> after it, which individually fails, is
  never evaluated.
\<close>

theorem runAssertions_throws_counterexample:
  "runAssertions (JObj [(''assertions'', JArr names_then_inputs)]) malformed_inputs JUndefined
     = Inl TypeError
   \<and> fails_individually (names_then_inputs ! 1) malformed_inputs JUndefined"
  by (simp add: runner_eval names_then_inputs_def malformed_inputs_def fails_individually_def
        single_spec_def and_also_simps typeof_is_def)

text \<open>
  C1 (amended): for every test spec with a non-empty assertion list and every target/status
  pair, the runner returns a report unless some assertion individually throws; the failures
  of the report are exactly the failures of the assertions evaluated individually, one entry
  per assertion that individually fails, in spec order (no early exit on a failure); the
  report is \<^verbatim>\<open>ok\<close> iff that sequence is empty; and an assertion whose type names no
  property of the handler registry individually fails with the entry
  \<^verbatim>\<open>Unknown assertion type\<close>.
\<close>

theorem runAssertions_evaluates_every_assertion:
  assumes "js_get testSpec ''assertions'' = Inr (JArr items)" and "items \<noteq> []"
  shows "((\<exists>e. runAssertions testSpec target status = Inl e)
            \<longleftrightarrow> (\<exists>a \<in> set items. throws_individually a target status))
       \<and> (\<forall>r. runAssertions testSpec target status = Inr r \<longrightarrow>
              failures r = Some (concat (map (\<lambda>a. individual_failures a target status) items))
            \<and> (ok r \<longleftrightarrow> failures r = Some []))
       \<and> (\<forall>a \<in> set items.
              length (individual_failures a target status)
                = (if fails_individually a target status then 1 else 0))
       \<and> (\<forall>a \<in> set items.
              \<not> nullish a \<and> \<not> registered (to_string (js_get_opt a ''type''))
              \<longrightarrow> individual_failures a target status = [unknown_type_failure a])"
proof (intro conjI)
  note run = runAssertions_list [OF assms, of target status]
  show "(\<exists>e. runAssertions testSpec target status = Inl e)
            \<longleftrightarrow> (\<exists>a \<in> set items. throws_individually a target status)"
    using map_each_Inl [of "\<lambda>a. assertion_step a target (effective_status status) []" items]
    by (auto simp: run and_then_Inl_iff throws_individually_eq)
  show "\<forall>r. runAssertions testSpec target status = Inr r \<longrightarrow>
              failures r = Some (concat (map (\<lambda>a. individual_failures a target status) items))
            \<and> (ok r \<longleftrightarrow> failures r = Some [])"
  proof (intro allI impI)
    fix r
    assume "runAssertions testSpec target status = Inr r"
    then obtain fss where
      m: "map_each (\<lambda>a. assertion_step a target (effective_status status) []) items = Inr fss"
      and r: "r = report_of (concat fss)"
      by (auto simp: run and_then_Inr_iff)
    from m have all: "\<forall>a \<in> set items. \<exists>fs. assertion_step a target (effective_status status) [] = Inr fs"
      and fss: "fss = map (\<lambda>a. projr (assertion_step a target (effective_status status) [])) items"
      by (simp_all add: map_each_Inr)
    have "map (\<lambda>a. projr (assertion_step a target (effective_status status) [])) items
            = map (\<lambda>a. individual_failures a target status) items"
      using all by (auto simp: individual_failures_eq)
    with fss r show "failures r = Some (concat (map (\<lambda>a. individual_failures a target status) items))
            \<and> (ok r \<longleftrightarrow> failures r = Some [])"
      by (simp add: report_of_def)
  qed
  show "\<forall>a \<in> set items.
              length (individual_failures a target status)
                = (if fails_individually a target status then 1 else 0)"
    by (simp add: individual_count)
  show "\<forall>a \<in> set items.
              \<not> nullish a \<and> \<not> registered (to_string (js_get_opt a ''type''))
              \<longrightarrow> individual_failures a target status = [unknown_type_failure a]"
    by (simp add: individual_failures_eq unknown_type_individually)
qed

theorem runAssertions_evaluates_every_assertion_witness:
  "js_get (JObj [(''assertions'', JArr four_assertions)]) ''assertions'' = Inr (JArr four_assertions)
   \<and> four_assertions \<noteq> []
   \<and> runAssertions (JObj [(''assertions'', JArr four_assertions)]) outputs_only JUndefined
       = Inr \<lparr>ok = False,
              message = JoinedFailures
                [\<lparr>failure_id = JStr ''inputs'', failure_severity = JStr ''fatal'',
                    failure_message = Description (JStr ''inputs must be well formed'')\<rparr>,
                 \<lparr>failure_id = JStr ''mystery'', failure_severity = JStr ''warning'',
                    failure_message = UnknownAssertionType (JStr ''no_such_check'')\<rparr>,
                 \<lparr>failure_id = JStr ''failures'', failure_severity = JStr ''fatal'',
                    failure_message = AssertionFailed (JStr ''failures'')\<rparr>],
              failures = Some
                [\<lparr>failure_id = JStr ''inputs'', failure_severity = JStr ''fatal'',
                    failure_message = Description (JStr ''inputs must be well formed'')\<rparr>,
                 \<lparr>failure_id = JStr ''mystery'', failure_severity = JStr ''warning'',
                    failure_message = UnknownAssertionType (JStr ''no_such_check'')\<rparr>,
                 \<lparr>failure_id = JStr ''failures'', failure_severity = JStr ''fatal'',
                    failure_message = AssertionFailed (JStr ''failures'')\<rparr>]\<rparr>
   \<and> map (\<lambda>a. fails_individually a outputs_only JUndefined) four_assertions
       = [True, True, False, True]"
proof -
  have a: "js_get (JObj [(''assertions'', JArr four_assertions)]) ''assertions'' = Inr (JArr four_assertions)"
    by simp
  have b: "four_assertions \<noteq> []" by (simp add: four_assertions_def)
  have run: "runAssertions (JObj [(''assertions'', JArr four_assertions)]) outputs_only JUndefined
       = Inr \<lparr>ok = False,
              message = JoinedFailures
                [\<lparr>failure_id = JStr ''inputs'', failure_severity = JStr ''fatal'',
                    failure_message = Description (JStr ''inputs must be well formed'')\<rparr>,
                 \<lparr>failure_id = JStr ''mystery'', failure_severity = JStr ''warning'',
                    failure_message = UnknownAssertionType (JStr ''no_such_check'')\<rparr>,
                 \<lparr>failure_id = JStr ''failures'', failure_severity = JStr ''fatal'',
                    failure_message = AssertionFailed (JStr ''failures'')\<rparr>],
              failures = Some
                [\<lparr>failure_id = JStr ''inputs'', failure_severity = JStr ''fatal'',
                    failure_message = Description (JStr ''inputs must be well formed'')\<rparr>,
                 \<lparr>failure_id = JStr ''mystery'', failure_severity = JStr ''warning'',
                    failure_message = UnknownAssertionType (JStr ''no_such_check'')\<rparr>,
                 \<lparr>failure_id = JStr ''failures'', failure_severity = JStr ''fatal'',
                    failure_message = AssertionFailed (JStr ''failures'')\<rparr>]\<rparr>"
    by (simp add: runner_eval four_assertions_def outputs_only_def)
  have each: "map (\<lambda>a. fails_individually a outputs_only JUndefined) four_assertions
       = [True, True, False, True]"
    by (simp add: runner_eval four_assertions_def outputs_only_def fails_individually_def single_spec_def)
  show ?thesis
    using a b run each
      runAssertions_evaluates_every_assertion [OF a b, of outputs_only JUndefined]
    by simp
qed

text \<open>
  The lookup \<^verbatim>\<open>type in assertionHandlers\<close> also finds the names that the registry
  inherits.  An assertion of type \<^verbatim>\<open>toString\<close> is therefore not reported as unknown: the
  inherited method is called, returns a non-empty string, and the assertion passes on every
  target.
\<close>

lemma inherited_type_passes:
  "runAssertions (JObj [(''assertions'', JArr [JObj [(''id'', JStr ''a1''), (''type'', JStr ''toString'')]])])
     target status
   = Inr \<lparr>ok = True, message = AllAssertionsPassed, failures = Some []\<rparr>"
  by (simp add: runner_eval inherited_call_def)

section \<open>Static-contract mode\<close>

lemma wrapped_has_no_field:
  "k \<noteq> ''resolverDeclaration'' \<Longrightarrow> k \<notin> set object_prototype_keys
     \<Longrightarrow> js_get (wrapped declaration) k = Inr JUndefined"
  by (auto simp: wrapped_def inherited_from_object_def object_prototype_keys_def)

lemma metadata_validators_on_wrapper:
  "checkResolverInputsValid (wrapped declaration) = Inr False"
  "checkResolverOutputsValid (wrapped declaration) = Inr False"
  "checkResolverFailuresValid (wrapped declaration) = Inr False"
  by (simp_all add: checkResolverInputsValid_def checkResolverOutputsValid_def
        checkResolverFailuresValid_def wrapped_has_no_field object_prototype_keys_def)

lemma metadata_handlers_on_wrapper:
  "call_handler ''resolver_inputs_valid'' (wrapped declaration) a status = Inr (JBool False)"
  "call_handler ''resolver_outputs_valid'' (wrapped declaration) a status = Inr (JBool False)"
  "call_handler ''resolver_failures_valid'' (wrapped declaration) a status = Inr (JBool False)"
  by (simp_all add: call_handler_def assertionHandlers_def boolean_def metadata_validators_on_wrapper)

lemma metadata_types_registered:
  "registered ''resolver_inputs_valid''" "registered ''resolver_outputs_valid''"
  "registered ''resolver_failures_valid''"
  by (simp_all add: registered_def handler_names_def assertionHandlers_def)

lemma failing_boolean_step:
  assumes "\<not> nullish a" and "js_get_opt a ''type'' = JStr t" and "registered t"
    and "call_handler t target a status = Inr (JBool False)"
  shows "\<exists>entry. assertion_step a target status [] = Inr [entry]"
  using assms by (simp add: assertion_step_def js_get_defined Let_def)

lemma metadata_assertion_fails_on_wrapper:
  assumes "\<not> nullish a" and "js_get_opt a ''type'' = JStr t" and "t \<in> set metadata_assertion_types"
  shows "\<exists>entry. assertion_step a (wrapped declaration) status [] = Inr [entry]"
proof -
  from assms(3) consider "t = ''resolver_inputs_valid''" | "t = ''resolver_outputs_valid''"
    | "t = ''resolver_failures_valid''"
    by (auto simp: metadata_assertion_types_def)
  then show ?thesis
  proof cases
    case 1
    with assms(1,2) show ?thesis
      by (intro failing_boolean_step [where t = t]) (simp_all add: metadata_types_registered metadata_handlers_on_wrapper)
  next
    case 2
    with assms(1,2) show ?thesis
      by (intro failing_boolean_step [where t = t]) (simp_all add: metadata_types_registered metadata_handlers_on_wrapper)
  next
    case 3
    with assms(1,2) show ?thesis
      by (intro failing_boolean_step [where t = t]) (simp_all add: metadata_types_registered metadata_handlers_on_wrapper)
  qed
qed

lemma first_index: "array_index (Suc 0) ''0'' = Some 0"
  by code_simp

lemma static_suite_fixture:
  "and_then (js_get static_suite_spec ''fixtures'') (\<lambda>fixtures.
     and_then (js_get fixtures ''inputs'') (\<lambda>inputs. js_get inputs ''0''))
   = Inr (JObj [(''resolver_contract'', JStr ''contract.js'')])"
  by (simp add: static_suite_spec_def first_index)

lemma static_suite_on_direct:
  "runAssertions static_suite_spec example_declaration JUndefined
     = Inr \<lparr>ok = True, message = AllAssertionsPassed, failures = Some []\<rparr>"
  by (simp add: runner_eval static_suite_spec_def example_declaration_def and_also_simps typeof_is_def)

lemma static_suite_on_wrapped:
  "runAssertions static_suite_spec (wrapped example_declaration) JUndefined
     = Inr \<lparr>ok = False,
            message = JoinedFailures [\<lparr>failure_id = JStr ''inputs'', failure_severity = JStr ''fatal'',
                       failure_message = AssertionFailed (JStr ''inputs'')\<rparr>],
            failures = Some [\<lparr>failure_id = JStr ''inputs'', failure_severity = JStr ''fatal'',
                       failure_message = AssertionFailed (JStr ''inputs'')\<rparr>]\<rparr>"
  by (simp add: runner_eval static_suite_spec_def wrapped_def)

lemma static_suite_run:
  "run_suite (static_world m) f b meta suite failed s
     = (static_contract_suite (static_world m) suite static_suite_spec (JStr ''contract.js'') failed, s)"
  by (simp add: run_suite_def static_world_def static_suite_fixture)

lemma bare_function_meta:
  "inherited function_prototype_keys ''resolverDeclaration'' = JUndefined"
  "inherited function_prototype_keys ''resolverName'' = JUndefined"
  by (simp_all add: inherited_def inherited_from_object_def
        function_prototype_keys_def object_prototype_keys_def)

lemma unknown_is_no_bank: "value_includes (JStr ''unknown'') ''bank'' = Inr False"
  by (simp add: value_includes_def)

lemma static_direct_verdict:
  "static_contract_suite (static_world example_declaration) suite static_suite_spec
     (JStr ''contract.js'') 0 = Returned 0"
  by (simp add: static_contract_suite_def static_world_def static_suite_on_direct)

lemma static_wrapped_verdict:
  "static_contract_suite (static_world (wrapped example_declaration)) suite static_suite_spec
     (JStr ''contract.js'') 0 = Returned 1"
  by (simp add: static_contract_suite_def static_world_def static_suite_on_wrapped)

text \<open>
  C6, as the specification states it, fails: in static-contract mode the runner is given the
  loaded module as it is.  A suite that asserts \<^verbatim>\<open>resolver_inputs_valid\<close> passes when the
  contract module exposes the declaration directly and fails when the module wraps the same
  declaration in a \<^verbatim>\<open>resolverDeclaration\<close> field.
\<close>

theorem static_mode_wrapped_counterexample:
  "runAllTests (static_world example_declaration) [''R-005-resolver-metadata''] (JFun []) echo ()
     = (Returned 0, ())
   \<and> runAllTests (static_world (wrapped example_declaration)) [''R-005-resolver-metadata''] (JFun []) echo ()
     = (Returned 1, ())"
  by (simp add: runAllTests_def bare_function_meta js_or_def js_get_opt_def unknown_is_no_bank
        static_suite_run static_direct_verdict static_wrapped_verdict)

text \<open>
  C6 (amended): in static-contract mode the assertions are validated against the loaded
  contract module itself; the module is not unwrapped.  A module that exposes the
  declaration directly is validated against that declaration.  A module that wraps it in a
  \<^verbatim>\<open>resolverDeclaration\<close> field is validated as the wrapper: whatever the wrapped
  declaration is, a suite that asserts \<^verbatim>\<open>resolver_inputs_valid\<close>,
  \<^verbatim>\<open>resolver_outputs_valid\<close> or \<^verbatim>\<open>resolver_failures_valid\<close> does not pass on it.
\<close>

theorem static_mode_validates_loaded_module:
  assumes "contract_of w suite path = ContractModule m"
  shows "static_contract_suite w suite testSpec (JStr path) failed
           = (case runAssertions testSpec m JUndefined of
                Inl e \<Rightarrow> Raised e
              | Inr r \<Rightarrow> Returned (if ok r then failed else failed + 1))
       \<and> (\<forall>inner items a t.
              m = wrapped inner \<and> js_get testSpec ''assertions'' = Inr (JArr items)
              \<and> a \<in> set items \<and> \<not> nullish a \<and> js_get_opt a ''type'' = JStr t
              \<and> t \<in> set metadata_assertion_types
              \<longrightarrow> static_contract_suite w suite testSpec (JStr path) failed \<noteq> Returned failed)"
proof
  show first: "static_contract_suite w suite testSpec (JStr path) failed
           = (case runAssertions testSpec m JUndefined of
                Inl e \<Rightarrow> Raised e
              | Inr r \<Rightarrow> Returned (if ok r then failed else failed + 1))"
    using assms by (simp add: static_contract_suite_def split: sum.splits)
  show "\<forall>inner items a t.
              m = wrapped inner \<and> js_get testSpec ''assertions'' = Inr (JArr items)
              \<and> a \<in> set items \<and> \<not> nullish a \<and> js_get_opt a ''type'' = JStr t
              \<and> t \<in> set metadata_assertion_types
              \<longrightarrow> static_contract_suite w suite testSpec (JStr path) failed \<noteq> Returned failed"
  proof (intro allI impI, elim conjE)
    fix inner items a t
    assume m: "m = wrapped inner"
      and items: "js_get testSpec ''assertions'' = Inr (JArr items)"
      and a: "a \<in> set items" "\<not> nullish a" "js_get_opt a ''type'' = JStr t"
             "t \<in> set metadata_assertion_types"
    from a(1) have ne: "items \<noteq> []" by auto
    from metadata_assertion_fails_on_wrapper [OF a(2,3,4)] obtain entry where
      entry: "assertion_step a (wrapped inner) (effective_status JUndefined) [] = Inr [entry]"
      by blast
    show "static_contract_suite w suite testSpec (JStr path) failed \<noteq> Returned failed"
    proof (cases "runAssertions testSpec m JUndefined")
      case (Inl e)
      with first show ?thesis by simp
    next
      case (Inr r)
      then obtain fss where
        fss: "map_each (\<lambda>a. assertion_step a m (effective_status JUndefined) []) items = Inr fss"
        and r: "r = report_of (concat fss)"
        by (auto simp: runAssertions_list [OF items ne] and_then_Inr_iff)
      from fss have "fss = map (\<lambda>a. projr (assertion_step a m (effective_status JUndefined) [])) items"
        by (simp add: map_each_Inr)
      with a(1) entry m have "[entry] \<in> set fss" by force
      then have "concat fss \<noteq> []" by auto
      with r have "\<not> ok r" by (simp add: report_of_def)
      with first Inr show ?thesis by simp
    qed
  qed
qed

theorem static_mode_validates_loaded_module_witness:
  "contract_of (static_world (wrapped example_declaration)) ''R-005-resolver-metadata'' ''contract.js''
     = ContractModule (wrapped example_declaration)
   \<and> static_contract_suite (static_world (wrapped example_declaration)) ''R-005-resolver-metadata''
        static_suite_spec (JStr ''contract.js'') 0 = Returned 1"
proof -
  have c: "contract_of (static_world (wrapped example_declaration)) ''R-005-resolver-metadata'' ''contract.js''
     = ContractModule (wrapped example_declaration)"
    by (simp add: static_world_def)
  show ?thesis
    using c static_mode_validates_loaded_module [OF c, of static_suite_spec 0]
    by (simp add: static_suite_on_wrapped)
qed

end
